(* ===== verification/Proxy_Prelude.thy ===== *)
theory Proxy_Prelude
  imports Main "HOL-Library.Word" "HOL-Library.Code_Target_Nat"
begin

text \<open>
  Prelude of the development: the collections of facts the component theories extend, the
  names of the value types the Go code uses, and the generic list and sum lemmas that several
  components share.

  A Go string or byte slice is a \<open>string\<close> (a list of 8-bit characters, so \<open>length\<close> is
  Go's \<open>len\<close>); a Go pair \<open>(value, error)\<close> is a value of a sum type, \<open>Inl\<close> for the
  error; a Go \<open>int\<close> or \<open>time.Duration\<close> is an \<open>int\<close>, with the 64-bit wrap-around
  written out (\<open>wrap64\<close>) where the code can overflow; fixed-width unsigned values are
  words.
\<close>

named_theorems safety_facts
  \<open>facts that bound which bytes a validated string can hold\<close>

named_theorems state_facts
  \<open>read-over-write facts of the session state's accessors\<close>

type_synonym u32 = "32 word"
type_synonym u64 = "64 word"
type_synonym bytes = string

section \<open>64-bit signed arithmetic\<close>

text \<open>Two's complement reduction of a mathematical result to Go's 64-bit \<open>int\<close>.\<close>

definition wrap64 :: "int \<Rightarrow> int" where
  "wrap64 x = (x + 2 ^ 63) mod 2 ^ 64 - 2 ^ 63"

lemma wrap64_id: "- (2 ^ 63) \<le> x \<Longrightarrow> x < 2 ^ 63 \<Longrightarrow> wrap64 x = x"
  by (simp add: wrap64_def)

lemma wrap64_range: "- (2 ^ 63) \<le> wrap64 x \<and> wrap64 x < 2 ^ 63"
  by (simp add: wrap64_def)

text \<open>\<open>time.Duration(n) * time.Second\<close>: nanoseconds in a signed 64-bit integer.\<close>

definition seconds :: "int \<Rightarrow> int" where
  "seconds n = wrap64 (n * 1000000000)"

lemma seconds_small: "0 \<le> n \<Longrightarrow> n \<le> 9223372036 \<Longrightarrow> seconds n = n * 1000000000"
  unfolding seconds_def by (rule wrap64_id) auto

section \<open>Panics\<close>

text \<open>
  A run-time panic in a goroutine runs the deferred calls of that goroutine and then ends the
  process. A function that can panic has an \<open>outcome\<close>; its callers hand a panic on.
\<close>

datatype panic = SliceOutOfRange | MakeSliceOutOfRange | NilDereference

datatype 'a outcome = Panics panic | Returns 'a

text \<open>
  \<open>make([]string, 0, n)\<close> panics for a negative capacity and for more than \<open>2^48\<close> bytes, the
  address space of the Go runtime on 64-bit machines; a string header has 16 bytes. (Running out
  of memory below that limit is not modelled.)
\<close>

definition make_strings :: "int \<Rightarrow> bool" where
  "make_strings n \<longleftrightarrow> 0 \<le> n \<and> n * 16 \<le> 2 ^ 48"

section \<open>Lists\<close>

lemma takeWhile_append_stop [simp]:
  "\<forall>x \<in> set xs. P x \<Longrightarrow> \<not> P y \<Longrightarrow> takeWhile P (xs @ y # ys) = xs"
  by (induction xs) auto

lemma dropWhile_append_stop [simp]:
  "\<forall>x \<in> set xs. P x \<Longrightarrow> \<not> P y \<Longrightarrow> dropWhile P (xs @ y # ys) = y # ys"
  by (induction xs) auto

lemma dropWhile_id: "xs = [] \<or> \<not> P (hd xs) \<Longrightarrow> dropWhile P xs = xs"
  by (cases xs) auto

lemma hd_dropWhile_not: "dropWhile P xs \<noteq> [] \<Longrightarrow> \<not> P (hd (dropWhile P xs))"
  by (rule hd_dropWhile)

lemma filter_len_1_split:
  "length (filter (\<lambda>y. y = x) xs) = Suc 0 \<Longrightarrow>
     \<exists>as bs. xs = as @ x # bs \<and> x \<notin> set as \<and> x \<notin> set bs"
proof (induction xs)
  case Nil
  then show ?case by simp
next
  case (Cons y ys)
  show ?case
  proof (cases "y = x")
    case True
    with Cons.prems have "x \<notin> set ys" by (auto simp: filter_empty_conv)
    with True show ?thesis by (intro exI [of _ "[]"] exI [of _ ys]) simp
  next
    case False
    with Cons.prems Cons.IH obtain as bs where
      "ys = as @ x # bs" "x \<notin> set as" "x \<notin> set bs" by auto
    with False show ?thesis by (intro exI [of _ "y # as"] exI [of _ bs]) simp
  qed
qed

text \<open>Removing the elements of a class from both ends of a list, from the front first.\<close>

definition strip :: "('a \<Rightarrow> bool) \<Rightarrow> 'a list \<Rightarrow> 'a list" where
  "strip P xs = rev (dropWhile P (rev (dropWhile P xs)))"

lemma strip_Nil [simp]: "strip P [] = []"
  by (simp add: strip_def)

lemma strip_split: "\<exists>as bs. xs = as @ strip P xs @ bs"
proof -
  let ?f = "dropWhile P xs"
  have "xs = takeWhile P xs @ ?f" by simp
  moreover have "?f = rev (dropWhile P (rev ?f)) @ rev (takeWhile P (rev ?f))"
    by (metis rev_append rev_rev_ident takeWhile_dropWhile_id)
  ultimately show ?thesis unfolding strip_def by metis
qed

lemma set_strip: "set (strip P xs) \<subseteq> set xs"
  using strip_split [of xs P] by (metis Un_iff set_append subsetI)

lemma last_strip_not: "strip P xs \<noteq> [] \<Longrightarrow> \<not> P (last (strip P xs))"
  unfolding strip_def by (metis hd_dropWhile hd_rev rev.simps(1) rev_rev_ident)

lemma hd_strip_not:
  assumes "strip P xs \<noteq> []" shows "\<not> P (hd (strip P xs))"
proof -
  let ?f = "dropWhile P xs"
  obtain bs where "?f = strip P xs @ bs"
    unfolding strip_def by (metis rev_append rev_rev_ident takeWhile_dropWhile_id)
  with assms have "?f \<noteq> []" and "hd ?f = hd (strip P xs)" by auto
  with hd_dropWhile [of P xs] show ?thesis by simp
qed

lemma strip_id: "xs = [] \<or> (\<not> P (hd xs) \<and> \<not> P (last xs)) \<Longrightarrow> strip P xs = xs"
  by (auto simp: strip_def dropWhile_id hd_rev)

lemma strip_idem [simp]: "strip P (strip P xs) = strip P xs"
  using hd_strip_not [of P xs] last_strip_not [of P xs] by (intro strip_id) blast

lemma strip_eq_self: "strip P xs = xs \<longleftrightarrow> xs = [] \<or> (\<not> P (hd xs) \<and> \<not> P (last xs))"
  using strip_id hd_strip_not last_strip_not by metis

lemma strip_eq_Nil: "strip P xs = [] \<longleftrightarrow> (\<forall>x \<in> set xs. P x)"
proof
  assume "strip P xs = []"
  then have "\<forall>x \<in> set (dropWhile P xs). P x" by (simp add: strip_def dropWhile_eq_Nil_conv)
  then have "dropWhile P xs = []" using hd_dropWhile_not [of P xs] hd_in_set by blast
  then show "\<forall>x \<in> set xs. P x" by (simp add: dropWhile_eq_Nil_conv)
next
  assume "\<forall>x \<in> set xs. P x"
  then have "dropWhile P xs = []" by (simp add: dropWhile_eq_Nil_conv)
  then show "strip P xs = []" unfolding strip_def by (simp only: rev.simps dropWhile.simps)
qed

section \<open>Sums\<close>

text \<open>Go's \<open>if err != nil { return err }\<close>: continue with the value, stop at the error.\<close>

definition try_bind :: "'e + 'a \<Rightarrow> ('a \<Rightarrow> 'e + 'b) \<Rightarrow> 'e + 'b" where
  "try_bind m f = (case m of Inl e \<Rightarrow> Inl e | Inr a \<Rightarrow> f a)"

lemma try_bind_Inr [simp]: "try_bind (Inr a) f = f a"
  by (simp add: try_bind_def)

lemma try_bind_Inl [simp]: "try_bind (Inl e) f = Inl e"
  by (simp add: try_bind_def)

lemma try_bind_eq_Inr: "try_bind m f = Inr b \<longleftrightarrow> (\<exists>a. m = Inr a \<and> f a = Inr b)"
  by (cases m) auto

end
