(* ===== verification/Go_Strings.thy ===== *)
theory Go_Strings
  imports Proxy_Prelude
begin

text \<open>
  The part of Go's packages \<open>strings\<close>, \<open>unicode/utf8\<close>, \<open>unicode\<close> and \<open>strconv\<close> that
  the proxy calls, on byte strings. Ranging over a string decodes UTF-8 as Go does, one
  replacement rune for each byte that starts no valid encoding. The character tables above
  ASCII are the argument \<open>unicode\<close>; the ASCII part of every classification is computed
  here, and so is \<open>unicode.IsSpace\<close>, which Go lists explicitly.
\<close>

section \<open>UTF-8\<close>

definition byte :: "char \<Rightarrow> nat" where
  "byte c = of_char c"

lemma byte_less [simp]: "byte c < 256"
  by (simp add: byte_def)

lemma byte_inject [simp]: "byte c = byte d \<longleftrightarrow> c = d"
  by (simp add: byte_def)

lemma char_of_byte [simp]: "char_of (byte c) = c"
  by (simp add: byte_def)

definition in_range :: "nat \<Rightarrow> nat \<Rightarrow> char \<Rightarrow> bool" where
  "in_range lo hi c \<longleftrightarrow> lo \<le> byte c \<and> byte c \<le> hi"

definition rune_error :: nat where
  "rune_error = 0xFFFD"

text \<open>\<open>utf8.DecodeRuneInString\<close>: the first rune and its width in bytes.\<close>

fun decode_rune :: "string \<Rightarrow> nat \<times> nat" where
  "decode_rune [] = (rune_error, 0)"
| "decode_rune (c # cs) =
     (let b = byte c in
      if b < 0x80 then (b, 1)
      else if b < 0xC2 \<or> 0xF4 < b then (rune_error, 1)
      else if b < 0xE0 then
        (case cs of
           c1 # _ \<Rightarrow> if in_range 0x80 0xBF c1
                      then ((b - 0xC0) * 64 + (byte c1 - 0x80), 2) else (rune_error, 1)
         | _ \<Rightarrow> (rune_error, 1))
      else if b < 0xF0 then
        (case cs of
           c1 # c2 # _ \<Rightarrow>
             if in_range (if b = 0xE0 then 0xA0 else 0x80) (if b = 0xED then 0x9F else 0xBF) c1
                \<and> in_range 0x80 0xBF c2
             then (((b - 0xE0) * 64 + (byte c1 - 0x80)) * 64 + (byte c2 - 0x80), 3)
             else (rune_error, 1)
         | _ \<Rightarrow> (rune_error, 1))
      else
        (case cs of
           c1 # c2 # c3 # _ \<Rightarrow>
             if in_range (if b = 0xF0 then 0x90 else 0x80) (if b = 0xF4 then 0x8F else 0xBF) c1
                \<and> in_range 0x80 0xBF c2 \<and> in_range 0x80 0xBF c3
             then ((((b - 0xF0) * 64 + (byte c1 - 0x80)) * 64 + (byte c2 - 0x80)) * 64
                    + (byte c3 - 0x80), 4)
             else (rune_error, 1)
         | _ \<Rightarrow> (rune_error, 1)))"

text \<open>\<open>for _, r := range s\<close>: the runes of a string, each with the bytes it was read from.\<close>

fun segs :: "string \<Rightarrow> (nat \<times> string) list" where
  "segs [] = []"
| "segs (c # cs) =
     (let (r, w) = decode_rune (c # cs)
      in (r, c # take (w - 1) cs) # segs (drop (w - 1) cs))"

definition runes :: "string \<Rightarrow> nat list" where
  "runes s = map fst (segs s)"

text \<open>\<open>utf8.EncodeRune\<close>: surrogates and values above the last code point become \<open>U+FFFD\<close>.\<close>

definition encode_rune :: "nat \<Rightarrow> string" where
  "encode_rune r0 =
     (let r = (if 0x10FFFF < r0 \<or> (0xD800 \<le> r0 \<and> r0 \<le> 0xDFFF) then rune_error else r0) in
      if r < 0x80 then [char_of r]
      else if r < 0x800 then [char_of (0xC0 + r div 64), char_of (0x80 + r mod 64)]
      else if r < 0x10000 then
        [char_of (0xE0 + r div 4096), char_of (0x80 + r div 64 mod 64), char_of (0x80 + r mod 64)]
      else
        [char_of (0xF0 + r div 262144), char_of (0x80 + r div 4096 mod 64),
         char_of (0x80 + r div 64 mod 64), char_of (0x80 + r mod 64)])"

lemma decode_rune_cases:
  assumes "decode_rune (c # cs) = (r, w)"
  shows "(r < 0x80 \<and> r = byte c \<and> w = 1) \<or>
         (0x80 \<le> r \<and> 0x80 \<le> byte c \<and> 1 \<le> w \<and> w \<le> Suc (length cs) \<and>
          (\<forall>d \<in> set (take (w - 1) cs). 0x80 \<le> byte d))"
  using assms
  by (auto simp: Let_def in_range_def rune_error_def split: if_splits list.splits)

lemma concat_segs [simp]: "concat (map snd (segs s)) = s"
  by (induction s rule: segs.induct) (auto simp del: decode_rune.simps split: prod.splits)

lemma segs_ascii: "\<forall>c \<in> set s. byte c < 0x80 \<Longrightarrow> segs s = map (\<lambda>c. (byte c, [c])) s"
  by (induction s) auto

lemma runes_ascii: "\<forall>c \<in> set s. byte c < 0x80 \<Longrightarrow> runes s = map byte s"
  by (simp add: runes_def segs_ascii)

lemma runes_Nil [simp]: "runes [] = []"
  by (simp add: runes_def)

lemma segs_eq_Nil [simp]: "segs s = [] \<longleftrightarrow> s = []"
  by (cases s) (auto split: prod.splits)

lemma runes_eq_Nil [simp]: "runes s = [] \<longleftrightarrow> s = []"
  by (simp add: runes_def)

text \<open>Every rune is an ASCII byte, or is above ASCII and so are all its bytes.\<close>

lemma segs_shape:
  "(r, b) \<in> set (segs s) \<Longrightarrow>
     (r < 0x80 \<and> (\<exists>c. b = [c] \<and> byte c = r)) \<or> (0x80 \<le> r \<and> b \<noteq> [] \<and> (\<forall>c \<in> set b. 0x80 \<le> byte c))"
proof (induction s arbitrary: r b rule: segs.induct)
  case 1
  then show ?case by simp
next
  case (2 c cs)
  obtain r0 w where d: "decode_rune (c # cs) = (r0, w)" by (cases "decode_rune (c # cs)") auto
  from "2.prems" d consider "(r, b) = (r0, c # take (w - 1) cs)" | "(r, b) \<in> set (segs (drop (w - 1) cs))"
    by (auto simp del: decode_rune.simps)
  then show ?case
  proof cases
    case 1
    with decode_rune_cases [OF d] show ?thesis by auto
  next
    case 2
    then show ?thesis using "2.IH" [OF d [symmetric] refl] by auto
  qed
qed

lemma ascii_byte_in_runes:
  assumes "c \<in> set s" and "byte c < 0x80"
  shows "byte c \<in> set (runes s)"
proof -
  from assms(1) have "c \<in> set (concat (map snd (segs s)))" by (simp only: concat_segs)
  then obtain r b where rb: "(r, b) \<in> set (segs s)" and "c \<in> set b"
    by (auto simp del: concat_segs)
  with segs_shape [OF rb] assms(2) have "r = byte c" by auto
  with rb show ?thesis by (auto simp: runes_def image_iff intro!: bexI [of _ "(r, b)"])
qed

text \<open>An ASCII byte ends every encoding before it, so decoding splits there.\<close>

lemma decode_rune_ascii_append:
  "byte a < 0x80 \<Longrightarrow> decode_rune ((c # cs) @ a # ys) = decode_rune (c # cs)"
  by (cases cs; cases "tl cs"; cases "tl (tl cs)")
     (auto simp: Let_def in_range_def neq_Nil_conv split: list.split)

lemma decode_rune_width: "decode_rune (c # cs) = (r, w) \<Longrightarrow> 1 \<le> w \<and> w - 1 \<le> length cs"
  using decode_rune_cases [of c cs r w] by auto

lemma segs_ascii_split:
  "byte a < 0x80 \<Longrightarrow> segs (xs @ a # ys) = segs xs @ (byte a, [a]) # segs ys"
proof (induction xs rule: segs.induct)
  case 1
  then show ?case by simp
next
  case (2 c cs)
  obtain r w where d: "decode_rune (c # cs) = (r, w)" by (cases "decode_rune (c # cs)") auto
  then have d': "decode_rune (c # cs @ a # ys) = (r, w)"
    using decode_rune_ascii_append [OF "2.prems", of c cs ys] by simp
  have w: "w - 1 \<le> length cs" using decode_rune_width [OF d] by simp
  have "segs (drop (w - 1) cs @ a # ys) = segs (drop (w - 1) cs) @ (byte a, [a]) # segs ys"
    using "2.IH" [OF d [symmetric] refl] "2.prems" by simp
  with d d' w show ?case by (simp del: decode_rune.simps)
qed

lemma runes_ascii_split:
  "byte a < 0x80 \<Longrightarrow> runes (xs @ a # ys) = runes xs @ byte a # runes ys"
  by (simp add: runes_def segs_ascii_split)

section \<open>Character classes\<close>

text \<open>
  The tables of package \<open>unicode\<close> above ASCII: letters, decimal digits and lower case.
\<close>

record unicode =
  uLetter :: "nat \<Rightarrow> bool"
  uDigit :: "nat \<Rightarrow> bool"
  uLower :: "nat \<Rightarrow> nat"

text \<open>Tables that know no rune above ASCII, for closed examples.\<close>

definition ascii_tables :: unicode where
  "ascii_tables = \<lparr>uLetter = (\<lambda>_. False), uDigit = (\<lambda>_. False), uLower = (\<lambda>r. r)\<rparr>"

definition IsLetter :: "unicode \<Rightarrow> nat \<Rightarrow> bool" where
  "IsLetter U r = (if r < 0x80 then (0x41 \<le> r \<and> r \<le> 0x5A) \<or> (0x61 \<le> r \<and> r \<le> 0x7A) else uLetter U r)"

definition IsDigit :: "unicode \<Rightarrow> nat \<Rightarrow> bool" where
  "IsDigit U r = (if r < 0x80 then 0x30 \<le> r \<and> r \<le> 0x39 else uDigit U r)"

definition ToLowerRune :: "unicode \<Rightarrow> nat \<Rightarrow> nat" where
  "ToLowerRune U r = (if r < 0x80 then (if 0x41 \<le> r \<and> r \<le> 0x5A then r + 32 else r) else uLower U r)"

text \<open>\<open>unicode.IsSpace\<close>: the Latin-1 spaces and the runes with property White Space.\<close>

definition IsSpace :: "nat \<Rightarrow> bool" where
  "IsSpace r \<longleftrightarrow>
     r \<in> {0x09, 0x0A, 0x0B, 0x0C, 0x0D, 0x20, 0x85, 0xA0, 0x1680, 0x2028, 0x2029, 0x202F, 0x205F, 0x3000}
     \<or> (0x2000 \<le> r \<and> r \<le> 0x200A)"

text \<open>The tables agree with \<open>IsSpace\<close>: no space is a letter or a digit.\<close>

definition unicode_ok :: "unicode \<Rightarrow> bool" where
  "unicode_ok U \<longleftrightarrow> (\<forall>r. IsSpace r \<longrightarrow> \<not> uLetter U r \<and> \<not> uDigit U r)"

lemma unicode_ok_ascii [simp]: "unicode_ok ascii_tables"
  by (simp add: unicode_ok_def ascii_tables_def)

lemma ascii_space: "r < 0x80 \<Longrightarrow> IsSpace r \<Longrightarrow> r \<in> {9, 10, 11, 12, 13, 32}"
  by (simp add: IsSpace_def)

lemma space_not_letter_digit:
  assumes "unicode_ok U" and "IsSpace r"
  shows "\<not> IsLetter U r \<and> \<not> IsDigit U r"
proof (cases "r < 0x80")
  case True
  with ascii_space [OF True assms(2)] show ?thesis by (auto simp: IsLetter_def IsDigit_def)
next
  case False
  with assms show ?thesis by (auto simp: unicode_ok_def IsLetter_def IsDigit_def)
qed

section \<open>Package strings\<close>

text \<open>
  \<open>strings.TrimSpace\<close>. Go trims the end by decoding backwards; UTF-8 synchronises itself,
  so the runes found there are those of the forward decoding used here.
\<close>

definition TrimSpace :: "string \<Rightarrow> string" where
  "TrimSpace s = concat (map snd (strip (\<lambda>(r, b). IsSpace r) (segs s)))"

text \<open>\<open>strings.Trim\<close>, \<open>TrimLeft\<close> and \<open>TrimRight\<close> with an ASCII cutset.\<close>

definition TrimLeft :: "string \<Rightarrow> string \<Rightarrow> string" where
  "TrimLeft s cutset = dropWhile (\<lambda>c. c \<in> set cutset) s"

definition TrimRight :: "string \<Rightarrow> string \<Rightarrow> string" where
  "TrimRight s cutset = rev (dropWhile (\<lambda>c. c \<in> set cutset) (rev s))"

definition Trim :: "string \<Rightarrow> string \<Rightarrow> string" where
  "Trim s cutset = strip (\<lambda>c. c \<in> set cutset) s"

definition HasPrefix :: "string \<Rightarrow> string \<Rightarrow> bool" where
  "HasPrefix s p \<longleftrightarrow> take (length p) s = p"

definition TrimPrefix :: "string \<Rightarrow> string \<Rightarrow> string" where
  "TrimPrefix s p = (if HasPrefix s p then drop (length p) s else s)"

definition TrimSuffix :: "string \<Rightarrow> string \<Rightarrow> string" where
  "TrimSuffix s p = (if HasPrefix (rev s) (rev p) then take (length s - length p) s else s)"

text \<open>\<open>strings.Cut\<close> at a one-byte separator: \<open>None\<close> when it is absent.\<close>

definition Cut :: "string \<Rightarrow> char \<Rightarrow> (string \<times> string) option" where
  "Cut s sep = (if sep \<in> set s
     then Some (takeWhile (\<lambda>c. c \<noteq> sep) s, tl (dropWhile (\<lambda>c. c \<noteq> sep) s)) else None)"

definition ContainsAny :: "string \<Rightarrow> string \<Rightarrow> bool" where
  "ContainsAny s chars \<longleftrightarrow> (\<exists>c \<in> set s. c \<in> set chars)"

definition CountByte :: "string \<Rightarrow> char \<Rightarrow> nat" where
  "CountByte s c = length (filter (\<lambda>d. d = c) s)"

text \<open>\<open>strings.ContainsRune\<close> of an ASCII string: only an ASCII rune can be found.\<close>

definition ContainsRune :: "string \<Rightarrow> nat \<Rightarrow> bool" where
  "ContainsRune s r \<longleftrightarrow> r \<in> byte ` set s"

fun Contains :: "string \<Rightarrow> string \<Rightarrow> bool" where
  "Contains [] p = (p = [])"
| "Contains (c # s) p = (HasPrefix (c # s) p \<or> Contains s p)"

text \<open>\<open>strings.Split\<close> at a one-byte separator.\<close>

fun Split :: "string \<Rightarrow> char \<Rightarrow> string list" where
  "Split [] sep = [[]]"
| "Split (c # s) sep =
     (if c = sep then [] # Split s sep
      else (case Split s sep of p # ps \<Rightarrow> (c # p) # ps | [] \<Rightarrow> [[c]]))"

fun Join :: "string list \<Rightarrow> string \<Rightarrow> string" where
  "Join [] sep = []"
| "Join [p] sep = p"
| "Join (p # q # ps) sep = p @ sep @ Join (q # ps) sep"

text \<open>\<open>strings.Fields\<close>: the maximal runs of runes that are not spaces.\<close>

fun fields_loop :: "(nat \<times> string) list \<Rightarrow> string \<Rightarrow> string list" where
  "fields_loop [] acc = (if acc = [] then [] else [acc])"
| "fields_loop ((r, b) # rest) acc =
     (if IsSpace r then (if acc = [] then fields_loop rest [] else acc # fields_loop rest [])
      else fields_loop rest (acc @ b))"

definition Fields :: "string \<Rightarrow> string list" where
  "Fields s = fields_loop (segs s) []"

definition ToLower :: "unicode \<Rightarrow> string \<Rightarrow> string" where
  "ToLower U s = concat (map (\<lambda>r. encode_rune (ToLowerRune U r)) (runes s))"

text \<open>
  \<open>strings.EqualFold(s, t)\<close> for a lower-case ASCII \<open>t\<close>. Under simple folding the only
  runes above ASCII that fold to an ASCII letter are the Kelvin sign and the long s.
\<close>

definition fold_eq :: "nat \<Rightarrow> char \<Rightarrow> bool" where
  "fold_eq r c \<longleftrightarrow> r = byte c \<or> (0x61 \<le> byte c \<and> byte c \<le> 0x7A \<and> r + 32 = byte c)
     \<or> (c = CHR ''k'' \<and> r = 0x212A) \<or> (c = CHR ''s'' \<and> r = 0x17F)"

definition EqualFold :: "string \<Rightarrow> string \<Rightarrow> bool" where
  "EqualFold s t = list_all2 fold_eq (runes s) t"

section \<open>Package strconv\<close>

definition is_digit :: "char \<Rightarrow> bool" where
  "is_digit c \<longleftrightarrow> 0x30 \<le> byte c \<and> byte c \<le> 0x39"

definition decimal :: "string \<Rightarrow> nat" where
  "decimal s = fold (\<lambda>c v. 10 * v + (byte c - 0x30)) s 0"

text \<open>\<open>strconv.Atoi\<close>: an optional sign, decimal digits, a value that fits in 64 bits.\<close>

definition Atoi :: "string \<Rightarrow> int option" where
  "Atoi s =
     (let (neg, ds) = (case s of [] \<Rightarrow> (False, [])
                         | c # cs \<Rightarrow> if c = CHR ''-'' then (True, cs)
                                    else if c = CHR ''+'' then (False, cs) else (False, s));
          v = (if neg then - int (decimal ds) else int (decimal ds))
      in if ds \<noteq> [] \<and> list_all is_digit ds \<and> - (2 ^ 63) \<le> v \<and> v < 2 ^ 63 then Some v else None)"

section \<open>Facts about these functions\<close>

text \<open>Decoding a prefix that ends on a rune boundary reads the same runes.\<close>

lemma decode_rune_prefix:
  assumes "decode_rune (c # cs) = (r, w)" and "w - 1 \<le> n"
  shows "decode_rune (c # take n cs) = (r, w)"
proof (cases "length cs \<le> n")
  case True
  with assms show ?thesis by simp
next
  case False
  have "n = 0 \<or> n = 1 \<or> n = 2 \<or> 3 \<le> n" by arith
  with assms False show ?thesis
    by (elim disjE; cases cs; cases "tl cs"; cases "tl (tl cs)")
       (auto simp: Let_def take_Cons' split: if_splits)
qed

lemma segs_prefix:
  "segs s = xs @ ys \<Longrightarrow> segs (concat (map snd xs)) = xs"
proof (induction s arbitrary: xs rule: segs.induct)
  case 1
  then show ?case by simp
next
  case (2 c cs)
  show ?case
  proof (cases xs)
    case Nil
    then show ?thesis by simp
  next
    case (Cons x xs')
    obtain r w where d: "decode_rune (c # cs) = (r, w)" by (cases "decode_rune (c # cs)") auto
    from "2.prems" Cons d have x: "x = (r, c # take (w - 1) cs)"
      and rest: "segs (drop (w - 1) cs) = xs' @ ys" by (auto simp del: decode_rune.simps)
    let ?t = "concat (map snd xs')"
    have split: "drop (w - 1) cs = ?t @ concat (map snd ys)"
      using concat_segs [of "drop (w - 1) cs"] unfolding rest by simp
    have w: "w - 1 \<le> length cs" using decode_rune_width [OF d] by simp
    have pre: "take (w - 1) cs @ ?t = take (w - 1 + length ?t) cs"
      using split by (simp add: take_add)
    have "decode_rune (c # take (w - 1) cs @ ?t) = (r, w)"
      unfolding pre by (rule decode_rune_prefix [OF d]) simp
    with w x Cons "2.IH" [OF d [symmetric] refl rest] show ?thesis
      by (simp del: decode_rune.simps)
  qed
qed

lemma segs_suffix: "segs s = xs @ ys \<Longrightarrow> segs (concat (map snd ys)) = ys"
proof (induction s arbitrary: xs rule: segs.induct)
  case 1
  then show ?case by simp
next
  case (2 c cs)
  show ?case
  proof (cases xs)
    case Nil
    with "2.prems" show ?thesis using concat_segs [of "c # cs"] by (metis append_Nil)
  next
    case (Cons x xs')
    obtain r w where d: "decode_rune (c # cs) = (r, w)" by (cases "decode_rune (c # cs)") auto
    with "2.prems" Cons have "segs (drop (w - 1) cs) = xs' @ ys" by (auto simp del: decode_rune.simps)
    then show ?thesis by (rule "2.IH" [OF d [symmetric] refl])
  qed
qed

lemma segs_infix: "segs s = xs @ ys @ zs \<Longrightarrow> segs (concat (map snd ys)) = ys"
  using segs_suffix [of s xs "ys @ zs"] segs_prefix [of _ ys zs] by simp

lemma segs_TrimSpace: "segs (TrimSpace s) = strip (\<lambda>(r, b). IsSpace r) (segs s)"
  unfolding TrimSpace_def
  using strip_split [of "segs s" "\<lambda>(r, b). IsSpace r"] segs_infix by metis

lemma TrimSpace_idem [simp]: "TrimSpace (TrimSpace s) = TrimSpace s"
  by (simp add: TrimSpace_def segs_TrimSpace [unfolded TrimSpace_def])

lemma TrimSpace_Nil [simp]: "TrimSpace [] = []"
  by (simp add: TrimSpace_def)

lemma set_TrimSpace: "set (TrimSpace s) \<subseteq> set s"
proof
  fix c assume "c \<in> set (TrimSpace s)"
  then obtain x where "x \<in> set (strip (\<lambda>(r, b). IsSpace r) (segs s))" and "c \<in> set (snd x)"
    by (auto simp: TrimSpace_def)
  then have "x \<in> set (segs s)" using set_strip by (metis subsetD)
  with \<open>c \<in> set (snd x)\<close> have "c \<in> set (concat (map snd (segs s)))" by (auto simp del: concat_segs)
  then show "c \<in> set s" by (simp only: concat_segs)
qed

text \<open>A string is its own trimming when its first and last rune are not spaces.\<close>

lemma TrimSpace_id:
  assumes "runes s \<noteq> [] \<Longrightarrow> \<not> IsSpace (hd (runes s))" "runes s \<noteq> [] \<Longrightarrow> \<not> IsSpace (last (runes s))"
  shows "TrimSpace s = s"
proof -
  have "strip (\<lambda>(r, b). IsSpace r) (segs s) = segs s"
    using assms by (intro strip_id) (auto simp: runes_def hd_map last_map case_prod_unfold)
  then show ?thesis by (simp add: TrimSpace_def)
qed

lemma ContainsRune_iff: "ContainsRune s (byte c) \<longleftrightarrow> c \<in> set s"
  by (auto simp: ContainsRune_def)

lemma Cut_SomeD:
  assumes "Cut s sep = Some (a, b)"
  shows "s = a @ sep # b \<and> sep \<notin> set a"
proof -
  from assms have in_s: "sep \<in> set s" and a: "a = takeWhile (\<lambda>c. c \<noteq> sep) s"
    and b: "b = tl (dropWhile (\<lambda>c. c \<noteq> sep) s)" by (auto simp: Cut_def split: if_splits)
  from in_s have ne: "dropWhile (\<lambda>c. c \<noteq> sep) s \<noteq> []" by (simp add: dropWhile_eq_Nil_conv)
  from ne hd_dropWhile [OF ne] have "dropWhile (\<lambda>c. c \<noteq> sep) s = sep # b"
    unfolding b by (cases "dropWhile (\<lambda>c. c \<noteq> sep) s") auto
  then have "s = a @ sep # b" unfolding a by (metis takeWhile_dropWhile_id)
  moreover have "sep \<notin> set a" unfolding a using set_takeWhileD by fastforce
  ultimately show ?thesis by simp
qed

lemma Cut_append [simp]: "sep \<notin> set a \<Longrightarrow> Cut (a @ sep # b) sep = Some (a, b)"
  by (induction a) (auto simp: Cut_def)

lemma Cut_None: "Cut s sep = None \<longleftrightarrow> sep \<notin> set s"
  by (simp add: Cut_def)

lemma Split_no_sep: "sep \<notin> set s \<Longrightarrow> Split s sep = [s]"
  by (induction s) auto

lemma Split_nonempty: "Split s sep \<noteq> []"
  by (induction s) (auto split: list.splits)

lemma Split_parts: "p \<in> set (Split s sep) \<Longrightarrow> set p \<subseteq> set s - {sep}"
proof (induction s arbitrary: p)
  case (Cons c s)
  then show ?case by (cases "Split s sep") (auto split: if_splits, blast+)
qed simp

lemma HasPrefix_append [simp]: "HasPrefix (p @ s) p"
  by (simp add: HasPrefix_def)

lemma HasPrefix_Cons [simp]: "HasPrefix (c # s) (d # p) \<longleftrightarrow> c = d \<and> HasPrefix s p"
  by (auto simp: HasPrefix_def)

lemma HasPrefix_Nil [simp]: "HasPrefix s []" "HasPrefix [] (d # p) \<longleftrightarrow> False"
  by (auto simp: HasPrefix_def)

text \<open>
  Printable ASCII without upper-case letters, the shape of the keywords the code compares
  normalised strings with: such a string is its own trimming and its own lower case.
\<close>

definition lower_word :: "string \<Rightarrow> bool" where
  "lower_word s \<longleftrightarrow>
     (\<forall>c \<in> set s. 0x21 \<le> byte c \<and> byte c < 0x7F \<and> \<not> (0x41 \<le> byte c \<and> byte c \<le> 0x5A))"

lemma lower_word_ascii: "lower_word s \<Longrightarrow> \<forall>c \<in> set s. byte c < 0x80"
  by (auto simp: lower_word_def)

lemma ToLower_lower_word [simp]: "lower_word s \<Longrightarrow> ToLower U s = s"
proof -
  assume s: "lower_word s"
  have "concat (map (\<lambda>r. encode_rune (ToLowerRune U r)) (map byte s)) = s"
    using s by (induction s) (auto simp: lower_word_def ToLowerRune_def encode_rune_def Let_def)
  then show ?thesis by (simp only: ToLower_def runes_ascii [OF lower_word_ascii [OF s]])
qed

lemma TrimSpace_lower_word [simp]: "lower_word s \<Longrightarrow> TrimSpace s = s"
proof (rule TrimSpace_id)
  assume s: "lower_word s" and ne: "runes s \<noteq> []"
  then have "hd (runes s) \<in> byte ` set s" "last (runes s) \<in> byte ` set s"
    by (auto simp: runes_ascii [OF lower_word_ascii] hd_map last_map)
  with s show "\<not> IsSpace (hd (runes s))" "\<not> IsSpace (last (runes s))"
    by (auto simp: lower_word_def IsSpace_def)
qed

section \<open>Encoding is the inverse of decoding\<close>

text \<open>A rune that was decoded without an error is encoded by the bytes it was read from.\<close>

lemma div_mod_64: "(y::nat) < 64 \<Longrightarrow> (x * 64 + y) div 64 = x" "(y::nat) < 64 \<Longrightarrow> (x * 64 + y) mod 64 = y"
  by simp_all

lemma encode_rune_2:
  assumes "2 \<le> x" "x < 32" "y < 64"
  shows "encode_rune (x * 64 + y) = [char_of (0xC0 + x), char_of (0x80 + y)]"
proof -
  define r where "r = x * 64 + y"
  have "r div 64 = x" "r mod 64 = y" unfolding r_def using assms(3) by (rule div_mod_64)+
  moreover have "0x80 \<le> r" "r < 0x800" unfolding r_def using assms by linarith+
  ultimately have "encode_rune r = [char_of (0xC0 + x), char_of (0x80 + y)]"
    unfolding encode_rune_def Let_def by (simp add: not_le)
  then show ?thesis by (simp only: r_def)
qed

lemma encode_rune_3:
  assumes "x < 16" "y < 64" "z < 64" "x = 0 \<longrightarrow> 32 \<le> y" "x = 13 \<longrightarrow> y < 32"
  shows "encode_rune ((x * 64 + y) * 64 + z) = [char_of (0xE0 + x), char_of (0x80 + y), char_of (0x80 + z)]"
proof -
  define q where "q = x * 64 + y"
  define r where "r = q * 64 + z"
  have d: "r div 64 = q" "r mod 64 = z" unfolding r_def using assms(3) by (rule div_mod_64)+
  have q: "q div 64 = x" "q mod 64 = y" unfolding q_def using assms(2) by (rule div_mod_64)+
  have "r div 4096 = r div 64 div 64" by (simp add: div_mult2_eq [symmetric])
  with d q have h: "r div 4096 = x" by simp
  have "x = 0 \<or> x = 13 \<or> (1 \<le> x \<and> x \<le> 12) \<or> 14 \<le> x" by linarith
  then have "32 \<le> q \<and> (q < 0x360 \<or> 0x380 \<le> q)"
    using assms unfolding q_def by (elim disjE) auto
  moreover have "q < 1024" using assms unfolding q_def by linarith
  ultimately have b: "0x800 \<le> r" "r < 0x10000" "\<not> (0xD800 \<le> r \<and> r \<le> 0xDFFF)"
    using assms(3) unfolding r_def by linarith+
  then have "(if 0x10FFFF < r \<or> (0xD800 \<le> r \<and> r \<le> 0xDFFF) then rune_error else r) = r" by auto
  then have "encode_rune r = [char_of (0xE0 + x), char_of (0x80 + y), char_of (0x80 + z)]"
    unfolding encode_rune_def Let_def using b d q h by (simp only: if_True if_False not_le list.inject) simp
  then show ?thesis by (simp only: r_def q_def)
qed

lemma encode_rune_4:
  assumes "x < 5" "y < 64" "z < 64" "w < 64" "x = 0 \<longrightarrow> 16 \<le> y" "x = 4 \<longrightarrow> y < 16"
  shows "encode_rune (((x * 64 + y) * 64 + z) * 64 + w) =
    [char_of (0xF0 + x), char_of (0x80 + y), char_of (0x80 + z), char_of (0x80 + w)]"
proof -
  define p where "p = x * 64 + y"
  define q where "q = p * 64 + z"
  define r where "r = q * 64 + w"
  have d: "r div 64 = q" "r mod 64 = w" unfolding r_def using assms(4) by (rule div_mod_64)+
  have q: "q div 64 = p" "q mod 64 = z" unfolding q_def using assms(3) by (rule div_mod_64)+
  have p: "p div 64 = x" "p mod 64 = y" unfolding p_def using assms(2) by (rule div_mod_64)+
  have "r div 4096 = r div 64 div 64" "r div 262144 = r div 64 div 64 div 64"
    by (simp_all add: div_mult2_eq [symmetric])
  with d q p have h: "r div 4096 = p" "r div 262144 = x" by simp_all
  have "x = 0 \<or> x = 4 \<or> (1 \<le> x \<and> x \<le> 3)" using assms(1) by linarith
  then have "16 \<le> p \<and> p < 272" using assms unfolding p_def by (elim disjE) auto
  then have "1024 \<le> q" "q < 17408" using assms(3) unfolding q_def by auto
  then have b: "0x10000 \<le> r" "r \<le> 0x10FFFF" using assms(4) unfolding r_def by auto
  then have "encode_rune r = [char_of (0xF0 + x), char_of (0x80 + y), char_of (0x80 + z), char_of (0x80 + w)]"
    unfolding encode_rune_def Let_def using d q p h by (simp add: not_le)
  then show ?thesis by (simp only: r_def q_def p_def)
qed

lemma char_of_shift: "n \<le> byte c \<Longrightarrow> char_of (n + (byte c - n)) = c"
  by simp

lemma encode_2:
  assumes "0xC2 \<le> byte c" "byte c < 0xE0" "in_range 0x80 0xBF c1"
  shows "encode_rune ((byte c - 0xC0) * 64 + (byte c1 - 0x80)) = [c, c1]"
proof -
  have c1: "0x80 \<le> byte c1" "byte c1 \<le> 0xBF" using assms(3) by (auto simp: in_range_def)
  have "encode_rune ((byte c - 0xC0) * 64 + (byte c1 - 0x80)) =
      [char_of (0xC0 + (byte c - 0xC0)), char_of (0x80 + (byte c1 - 0x80))]"
    using assms c1 by (intro encode_rune_2) linarith+
  then show ?thesis using assms c1 by (simp only: char_of_shift)
qed

lemma encode_3:
  assumes "0xE0 \<le> byte c" "byte c < 0xF0"
    and "in_range (if byte c = 0xE0 then 0xA0 else 0x80) (if byte c = 0xED then 0x9F else 0xBF) c1"
    and "in_range 0x80 0xBF c2"
  shows "encode_rune (((byte c - 0xE0) * 64 + (byte c1 - 0x80)) * 64 + (byte c2 - 0x80)) = [c, c1, c2]"
proof -
  have c1: "0x80 \<le> byte c1" "byte c1 < 0xC0" "byte c = 0xE0 \<longrightarrow> 0xA0 \<le> byte c1" "byte c = 0xED \<longrightarrow> byte c1 < 0xA0"
    and c2: "0x80 \<le> byte c2" "byte c2 < 0xC0"
    using assms(3,4) by (auto simp: in_range_def split: if_splits)
  have "encode_rune (((byte c - 0xE0) * 64 + (byte c1 - 0x80)) * 64 + (byte c2 - 0x80)) =
      [char_of (0xE0 + (byte c - 0xE0)), char_of (0x80 + (byte c1 - 0x80)), char_of (0x80 + (byte c2 - 0x80))]"
    using assms(1,2) c1 c2 by (intro encode_rune_3) linarith+
  then show ?thesis using assms(1) c1(1) c2(1) by (simp only: char_of_shift)
qed

lemma encode_4:
  assumes "0xF0 \<le> byte c" "byte c \<le> 0xF4"
    and "in_range (if byte c = 0xF0 then 0x90 else 0x80) (if byte c = 0xF4 then 0x8F else 0xBF) c1"
    and "in_range 0x80 0xBF c2" "in_range 0x80 0xBF c3"
  shows "encode_rune ((((byte c - 0xF0) * 64 + (byte c1 - 0x80)) * 64 + (byte c2 - 0x80)) * 64 + (byte c3 - 0x80))
    = [c, c1, c2, c3]"
proof -
  have c1: "0x80 \<le> byte c1" "byte c1 < 0xC0" "byte c = 0xF0 \<longrightarrow> 0x90 \<le> byte c1" "byte c = 0xF4 \<longrightarrow> byte c1 < 0x90"
    and c2: "0x80 \<le> byte c2" "byte c2 < 0xC0" and c3: "0x80 \<le> byte c3" "byte c3 < 0xC0"
    using assms(3-5) by (auto simp: in_range_def split: if_splits)
  have "encode_rune ((((byte c - 0xF0) * 64 + (byte c1 - 0x80)) * 64 + (byte c2 - 0x80)) * 64 + (byte c3 - 0x80)) =
      [char_of (0xF0 + (byte c - 0xF0)), char_of (0x80 + (byte c1 - 0x80)), char_of (0x80 + (byte c2 - 0x80)),
       char_of (0x80 + (byte c3 - 0x80))]"
    using assms(1,2) c1 c2 c3 by (intro encode_rune_4) linarith+
  then show ?thesis using assms(1) c1(1) c2(1) c3(1) by (simp only: char_of_shift)
qed

lemma decode_rune_encode:
  assumes "decode_rune (c # cs) = (r, w)" "\<not> (r = rune_error \<and> w = 1)"
  shows "encode_rune r = c # take (w - 1) cs"
proof -
  consider "byte c < 0x80" | "0x80 \<le> byte c" "byte c < 0xC2 \<or> 0xF4 < byte c" | "0xC2 \<le> byte c" "byte c < 0xE0"
    | "0xE0 \<le> byte c" "byte c < 0xF0" | "0xF0 \<le> byte c" "byte c \<le> 0xF4" by linarith
  then show ?thesis
  proof cases
    case 1
    with assms show ?thesis by (auto simp: encode_rune_def)
  next
    case 2
    with assms show ?thesis by auto
  next
    case 3
    with assms show ?thesis by (auto simp: Let_def encode_2 split: list.splits if_splits)
  next
    case 4
    with assms obtain c1 c2 rest where "cs = c1 # c2 # rest"
      "in_range (if byte c = 0xE0 then 0xA0 else 0x80) (if byte c = 0xED then 0x9F else 0xBF) c1" "in_range 0x80 0xBF c2"
      "r = ((byte c - 0xE0) * 64 + (byte c1 - 0x80)) * 64 + (byte c2 - 0x80)" "w = 3"
      by (cases cs; cases "tl cs") (auto simp: Let_def split: if_splits)
    with encode_3 [OF 4] show ?thesis by simp
  next
    case 5
    with assms obtain c1 c2 c3 rest where "cs = c1 # c2 # c3 # rest"
      "in_range (if byte c = 0xF0 then 0x90 else 0x80) (if byte c = 0xF4 then 0x8F else 0xBF) c1"
      "in_range 0x80 0xBF c2" "in_range 0x80 0xBF c3"
      "r = (((byte c - 0xF0) * 64 + (byte c1 - 0x80)) * 64 + (byte c2 - 0x80)) * 64 + (byte c3 - 0x80)" "w = 4"
      by (cases cs; cases "tl cs"; cases "tl (tl cs)") (auto simp: Let_def split: if_splits)
    with encode_4 [OF 5] show ?thesis by simp
  qed
qed

text \<open>Bytes that are not valid UTF-8 are read one at a time, each as an error.\<close>

definition bad_seg :: "nat \<times> string \<Rightarrow> bool" where
  "bad_seg x \<longleftrightarrow> fst x = rune_error \<and> length (snd x) = 1"

definition valid_utf8 :: "string \<Rightarrow> bool" where
  "valid_utf8 s \<longleftrightarrow> list_all (\<lambda>x. \<not> bad_seg x) (segs s)"

definition sanitize :: "string \<Rightarrow> string" where
  "sanitize s = concat (map encode_rune (runes s))"

lemma segs_encode: "x \<in> set (segs s) \<Longrightarrow> \<not> bad_seg x \<Longrightarrow> encode_rune (fst x) = snd x"
proof (induction s arbitrary: x rule: segs.induct)
  case 1
  then show ?case by simp
next
  case (2 c cs)
  obtain r w where d: "decode_rune (c # cs) = (r, w)" by (cases "decode_rune (c # cs)") auto
  have "w - 1 \<le> length cs" "1 \<le> w" using decode_rune_width [OF d] by auto
  then have "length (c # take (w - 1) cs) = w" by simp
  with "2.prems" d "2.IH" [OF d [symmetric] refl] decode_rune_encode [OF d] show ?case
    by (auto simp: bad_seg_def simp del: decode_rune.simps)
qed

lemma sanitize_valid: "valid_utf8 s \<Longrightarrow> sanitize s = s"
proof -
  assume "valid_utf8 s"
  then have "map (encode_rune \<circ> fst) (segs s) = map snd (segs s)"
    by (auto simp: valid_utf8_def list_all_iff segs_encode)
  with concat_segs [of s] show ?thesis by (simp only: sanitize_def runes_def map_map)
qed

text \<open>A byte that is not a space survives trimming.\<close>

lemma TrimSpace_not_Nil:
  assumes "c \<in> set s" "byte c < 0x80" "\<not> IsSpace (byte c)"
  shows "TrimSpace s \<noteq> []"
proof
  assume "TrimSpace s = []"
  then have "strip (\<lambda>(r, b). IsSpace r) (segs s) = []" using segs_TrimSpace [of s] by simp
  then have "\<forall>r \<in> set (runes s). IsSpace r" by (auto simp: strip_eq_Nil runes_def)
  with ascii_byte_in_runes [OF assms(1,2)] assms(3) show False by blast
qed

end
