(* ===== verification/Wire.thy ===== *)
theory Wire
  imports Go_Strings
begin

text \<open>
  The payloads of the SSH channel requests that \<open>internal/server/server.go\<close> parses by hand:
  \<open>env\<close>, \<open>exec\<close>, \<open>pty-req\<close>, \<open>window-change\<close>. Offsets that the code computes in
  \<open>uint32\<close> are 32-bit words here and wrap; offsets it computes in \<open>int\<close> do not. A slice
  expression out of bounds is a panic, kept as a value.
\<close>

section \<open>Slices and big-endian words\<close>

datatype 'a parsed = Parsed 'a | Malformed | Panic

text \<open>\<open>binary.BigEndian.Uint32\<close> of a four-byte slice.\<close>

fun Uint32 :: "bytes \<Rightarrow> u32" where
  "Uint32 [a, b, c, d] = of_nat (((byte a * 256 + byte b) * 256 + byte c) * 256 + byte d)"
| "Uint32 _ = 0"

text \<open>\<open>payload[lo:hi]\<close>, bounded by the length; the continuation runs unless it panics.\<close>

definition with_slice :: "bytes \<Rightarrow> int \<Rightarrow> int \<Rightarrow> (bytes \<Rightarrow> 'a parsed) \<Rightarrow> 'a parsed" where
  "with_slice payload lo hi k =
     (if 0 \<le> lo \<and> lo \<le> hi \<and> hi \<le> int (length payload)
      then k (take (nat (hi - lo)) (drop (nat lo) payload)) else Panic)"

section \<open>The parsers\<close>

text \<open>The first half of \<open>handleEnvRequest\<close>: the name and the value.\<close>

definition parseEnvPayload :: "bytes \<Rightarrow> (string \<times> string) parsed" where
  "parseEnvPayload payload =
     (if length payload < 8 then Malformed
      else with_slice payload 0 4 (\<lambda>b.
        let nameLen = Uint32 b in
        if uint nameLen > int (length payload) - 8 then Malformed
        else with_slice payload 4 (uint (4 + nameLen)) (\<lambda>varName.
          with_slice payload (uint (4 + nameLen)) (uint (8 + nameLen)) (\<lambda>b'.
            let valueLen = Uint32 b' in
            if uint valueLen > int (length payload) - uint (8 + nameLen) then Malformed
            else with_slice payload (uint (8 + nameLen)) (uint (8 + nameLen + valueLen)) (\<lambda>varValue.
              Parsed (varName, varValue))))))"

text \<open>
  The command of an \<open>exec\<close> request. A payload that is too short leaves the variable
  \<open>command\<close> as it was.
\<close>

definition parseExecPayload :: "bytes \<Rightarrow> string \<Rightarrow> string parsed" where
  "parseExecPayload payload command =
     (if length payload > 4 then
        with_slice payload 0 4 (\<lambda>b.
          let cmdLen = Uint32 b in
          if int (length payload) \<ge> 4 + uint cmdLen
          then with_slice payload 4 (uint (4 + cmdLen)) Parsed
          else Parsed command)
      else Parsed command)"

definition parsePtyRequest :: "bytes \<Rightarrow> (string \<times> int \<times> int) parsed" where
  "parsePtyRequest payload =
     (if length payload < 4 then Malformed
      else with_slice payload 0 4 (\<lambda>b.
        let termLen = uint (Uint32 b) in
        if int (length payload) < 4 + termLen + 8 then Malformed
        else with_slice payload 4 (4 + termLen) (\<lambda>term.
          with_slice payload (4 + termLen) (8 + termLen) (\<lambda>cols.
            with_slice payload (8 + termLen) (12 + termLen) (\<lambda>rows.
              Parsed (term, uint (Uint32 cols), uint (Uint32 rows)))))))"

definition parseWindowChange :: "bytes \<Rightarrow> int \<Rightarrow> int \<Rightarrow> int \<times> int" where
  "parseWindowChange payload cols rows =
     (if length payload \<ge> 8
      then (uint (Uint32 (take 4 payload)), uint (Uint32 (take 4 (drop 4 payload))))
      else (cols, rows))"

section \<open>The encodings of RFC 4254\<close>

text \<open>What a client sends: \<open>uint32\<close> big-endian, \<open>string\<close> with its length in front.\<close>

definition encode_u32 :: "u32 \<Rightarrow> bytes" where
  "encode_u32 w =
     [char_of (unat w div 16777216), char_of (unat w div 65536 mod 256),
      char_of (unat w div 256 mod 256), char_of (unat w mod 256)]"

definition encode_string :: "string \<Rightarrow> bytes" where
  "encode_string s = encode_u32 (of_nat (length s)) @ s"

lemma length_encode_u32 [simp]: "length (encode_u32 w) = 4"
  by (simp add: encode_u32_def)

lemma length_encode_string [simp]: "length (encode_string s) = 4 + length s"
  by (simp add: encode_string_def)

lemma byte_char_of: "n < 256 \<Longrightarrow> byte (char_of n) = n"
  by (simp add: byte_def)

lemma unat_u32_less: "unat (w :: u32) < 4294967296"
  using unsigned_less [of w] by simp

lemma split_bytes:
  "n = ((n div 16777216 * 256 + n div 65536 mod 256) * 256 + n div 256 mod 256) * 256 + n mod (256::nat)"
proof -
  have "n div 256 = n div 256 div 256 * 256 + n div 256 mod 256"
    "n div 65536 = n div 65536 div 256 * 256 + n div 65536 mod 256" by simp_all
  then show ?thesis by (simp add: div_mult2_eq [symmetric])
qed

lemma byte_char_of_mod: "byte (char_of n) = n mod 256"
  by (simp add: byte_def)

lemma Uint32_encode [simp]: "Uint32 (encode_u32 w) = w"
proof -
  have "unat w div 16777216 < 256" using unat_u32_less [of w] by (simp add: less_mult_imp_div_less)
  then have top: "unat w div 16777216 mod 256 = unat w div 16777216" by simp
  show ?thesis
    unfolding encode_u32_def Uint32.simps byte_char_of_mod mod_mod_trivial top split_bytes [symmetric]
    by simp
qed

lemma base_256: "d < 256 \<Longrightarrow> (x * 256 + d) div 256 = x \<and> (x * 256 + d) mod 256 = (d::nat)"
  by simp

lemma join_bytes:
  fixes a b c d :: nat
  assumes "a < 256" "b < 256" "c < 256" "d < 256"
  defines "n \<equiv> ((a * 256 + b) * 256 + c) * 256 + d"
  shows "n < 4294967296 \<and> n div 16777216 = a \<and> n div 65536 mod 256 = b \<and> n div 256 mod 256 = c \<and> n mod 256 = d"
proof -
  have 1: "n div 256 = (a * 256 + b) * 256 + c" "n mod 256 = d"
    using base_256 [OF assms(4)] by (simp_all only: n_def)
  have 2: "n div 256 div 256 = a * 256 + b" "n div 256 mod 256 = c"
    using base_256 [OF assms(3)] by (simp_all only: 1)
  have 3: "n div 256 div 256 div 256 = a" "n div 256 div 256 mod 256 = b"
    using base_256 [OF assms(2)] by (simp_all only: 2)
  have "n div 65536 = n div 256 div 256" "n div 16777216 = n div 256 div 256 div 256"
    by (simp_all add: div_mult2_eq [symmetric])
  with 1 2 3 have "n div 16777216 = a" "n div 65536 mod 256 = b" "n div 256 mod 256 = c" "n mod 256 = d"
    by simp_all
  moreover have "n < 4294967296"
  proof -
    have "n div 16777216 < 256" using \<open>n div 16777216 = a\<close> assms(1) by simp
    then show ?thesis by (simp add: div_less_iff_less_mult)
  qed
  ultimately show ?thesis by blast
qed

lemma encode_Uint32:
  assumes "length b = 4" shows "encode_u32 (Uint32 b) = b"
proof -
  obtain w x y z where b: "b = [w, x, y, z]"
    using assms by (auto simp: numeral_eq_Suc length_Suc_conv)
  note j = join_bytes [of "byte w" "byte x" "byte y" "byte z", simplified byte_less]
  let ?n = "((byte w * 256 + byte x) * 256 + byte y) * 256 + byte z"
  have n: "unat (of_nat ?n :: u32) = ?n" using j by (subst unat_of_nat) simp
  show ?thesis unfolding b using j by (simp only: encode_u32_def Uint32.simps n char_of_byte)
qed

section \<open>Totality and exactness\<close>

lemma unat_u32_add: "unat v + unat w < 4294967296 \<Longrightarrow> unat (v + w :: u32) = unat v + unat w"
  by (simp add: unat_word_ariths)

lemma unat_u32_offsets:
  "8 + unat (v :: u32) < 4294967296 \<Longrightarrow> unat (4 + v) = 4 + unat v \<and> unat (8 + v) = 8 + unat v"
  using unat_u32_add [of 4 v] unat_u32_add [of 8 v] by simp

lemma with_slice_nat:
  "with_slice p (int lo) (int hi) k =
     (if lo \<le> hi \<and> hi \<le> length p then k (take (hi - lo) (drop lo p)) else Panic)"
  by (simp add: with_slice_def nat_diff_distrib')

text \<open>Under the packet limit every offset of the \<open>env\<close> parser is exact.\<close>

lemma parseEnvPayload_unfold:
  assumes "length p < 2 ^ 32"
  shows "parseEnvPayload p =
    (if length p < 8 then Malformed
     else let n = unat (Uint32 (take 4 p)) in
       if length p < 8 + n then Malformed
       else let v = unat (Uint32 (take 4 (drop (4 + n) p))) in
         if length p < 8 + n + v then Malformed
         else Parsed (take n (drop 4 p), take v (drop (8 + n) p)))"
proof (cases "length p < 8")
  case True
  then show ?thesis by (simp add: parseEnvPayload_def)
next
  case False
  define nl where "nl = Uint32 (take 4 p)"
  have s4: "with_slice p 0 4 k = k (take 4 p)" for k :: "bytes \<Rightarrow> (string \<times> string) parsed"
    using False by (simp add: with_slice_def)
  show ?thesis
  proof (cases "length p < 8 + unat nl")
    case True
    then have "uint nl > int (length p) - 8" unfolding uint_nat by linarith
    with True False show ?thesis
      unfolding parseEnvPayload_def s4 Let_def nl_def [symmetric] by simp
  next
    case short: False
    then have "\<not> uint nl > int (length p) - 8" unfolding uint_nat by linarith
    moreover have o: "unat (4 + nl) = 4 + unat nl" "unat (8 + nl) = 8 + unat nl"
      using unat_u32_offsets [of nl] short assms by simp_all
    moreover define vl where "vl = Uint32 (take 4 (drop (4 + unat nl) p))"
    moreover have s1: "with_slice p 4 (uint (4 + nl)) k = k (take (unat nl) (drop 4 p))"
      "with_slice p (uint (4 + nl)) (uint (8 + nl)) k = k (take 4 (drop (4 + unat nl) p))"
      for k :: "bytes \<Rightarrow> (string \<times> string) parsed"
      using short with_slice_nat [of p 4 "4 + unat nl" k] with_slice_nat [of p "4 + unat nl" "8 + unat nl" k]
      unfolding uint_nat o by simp_all
    ultimately have P: "parseEnvPayload p =
      (if uint vl > int (length p) - uint (8 + nl) then Malformed
       else with_slice p (uint (8 + nl)) (uint (8 + nl + vl)) (\<lambda>v. Parsed (take (unat nl) (drop 4 p), v)))"
      using False unfolding parseEnvPayload_def s4 Let_def nl_def [symmetric] by simp
    show ?thesis
    proof (cases "length p < 8 + unat nl + unat vl")
      case True
      then have "uint vl > int (length p) - uint (8 + nl)" unfolding uint_nat o by linarith
      with True False short show ?thesis
        unfolding P Let_def nl_def [symmetric] vl_def [symmetric] by simp
    next
      case fits: False
      then have "\<not> uint vl > int (length p) - uint (8 + nl)" unfolding uint_nat o by linarith
      moreover have "unat (8 + nl + vl) = 8 + unat nl + unat vl"
        using unat_u32_add [of "8 + nl" vl] o fits assms by simp
      ultimately show ?thesis unfolding P
        using False short fits
          with_slice_nat [of p "8 + unat nl" "8 + unat nl + unat vl" "\<lambda>v. Parsed (take (unat nl) (drop 4 p), v)"]
        unfolding Let_def nl_def [symmetric] vl_def [symmetric] uint_nat o by simp
    qed
  qed
qed

lemma take_encode_string:
  assumes "length s < 2 ^ 32"
  shows "take 4 (encode_string s @ r) = encode_u32 (of_nat (length s))"
    and "unat (of_nat (length s) :: u32) = length s"
    and "take (length s) (drop 4 (encode_string s @ r)) = s"
    and "drop (4 + length s) (encode_string s @ r) = r"
  using assms by (simp_all add: encode_string_def unat_of_nat)

lemma string_field:
  assumes "n = unat (Uint32 (take 4 p))" "4 + n \<le> length p"
  shows "p = encode_string (take n (drop 4 p)) @ drop (4 + n) p"
proof -
  have l: "length (take n (drop 4 p)) = n" using assms(2) by simp
  have "encode_u32 (of_nat n) = encode_u32 (Uint32 (take 4 p))" by (simp add: assms(1))
  also have "\<dots> = take 4 p" using assms(2) by (intro encode_Uint32) simp
  finally have "encode_string (take n (drop 4 p)) @ drop (4 + n) p
      = take 4 p @ take n (drop 4 p) @ drop n (drop 4 p)"
    unfolding encode_string_def l by (simp add: add.commute)
  also have "\<dots> = p" by (metis append_take_drop_id)
  finally show ?thesis ..
qed

lemma string_field_exact:
  assumes "length p < 2 ^ 32"
  shows "(\<exists>r. p = encode_string s @ r) \<longleftrightarrow>
    4 \<le> length p \<and> (let n = unat (Uint32 (take 4 p)) in 4 + n \<le> length p \<and> s = take n (drop 4 p))"
    (is "?L \<longleftrightarrow> ?R")
proof
  assume ?L
  then obtain r where p: "p = encode_string s @ r" ..
  with assms have "length s < 2 ^ 32" by simp
  note t = take_encode_string [OF this]
  show ?R unfolding p t(1) Uint32_encode Let_def t(2) t(3) by simp
next
  assume ?R
  then show ?L using string_field [OF refl, of p] unfolding Let_def by blast
qed

text \<open>
  C13. The hand-written parser of \<open>env\<close> requests is exact. On every payload below 4 GiB
  (an SSH packet is far smaller) it never slices out of bounds, although it adds offsets in
  32-bit arithmetic; it returns a pair precisely when the payload starts with the RFC 4254
  encodings of that name and that value, and refuses everything else.
\<close>

theorem env_parser_exact:
  assumes len: "length p < 2 ^ 32"
  shows "parseEnvPayload p \<noteq> Panic
    \<and> (parseEnvPayload p = Parsed (n, v) \<longleftrightarrow> (\<exists>rest. p = encode_string n @ encode_string v @ rest))"
proof -
  note unf = parseEnvPayload_unfold [OF len]
  let ?n = "unat (Uint32 (take 4 p))"
  let ?q = "drop (4 + ?n) p"
  have q: "length ?q < 2 ^ 32" using len by simp
  have "(\<exists>rest. p = encode_string n @ encode_string v @ rest)
      \<longleftrightarrow> (\<exists>r. p = encode_string n @ r) \<and> (\<exists>r. ?q = encode_string v @ r)"
  proof
    assume "\<exists>rest. p = encode_string n @ encode_string v @ rest"
    then obtain rest where p: "p = encode_string n @ encode_string v @ rest" ..
    with len have ln: "length n < 2 ^ 32" by simp
    note t = take_encode_string [OF ln]
    have "?q = encode_string v @ rest" unfolding p t(1) Uint32_encode t(2) t(4) ..
    with p show "(\<exists>r. p = encode_string n @ r) \<and> (\<exists>r. ?q = encode_string v @ r)" by blast
  next
    assume a: "(\<exists>r. p = encode_string n @ r) \<and> (\<exists>r. ?q = encode_string v @ r)"
    then obtain r r' where p: "p = encode_string n @ r" and qr: "?q = encode_string v @ r'" by blast
    with len have ln: "length n < 2 ^ 32" by simp
    note t = take_encode_string [OF ln]
    have "?q = r" unfolding p t(1) Uint32_encode t(2) t(4) ..
    with p qr show "\<exists>rest. p = encode_string n @ encode_string v @ rest" by auto
  qed
  also have "\<dots> \<longleftrightarrow> parseEnvPayload p = Parsed (n, v)"
    unfolding string_field_exact [OF len] string_field_exact [OF q] unf Let_def
    by (auto simp: add.commute)
  finally show ?thesis unfolding unf by (auto simp: Let_def)
qed

lemma env_parser_exact_witness:
  "parseEnvPayload (encode_string ''LANG'' @ encode_string ''C'') = Parsed (''LANG'', ''C'')"
  using env_parser_exact [of "encode_string ''LANG'' @ encode_string ''C''" "''LANG''" "''C''"] by simp

lemma with_slice_prefix: "4 \<le> length p \<Longrightarrow> with_slice p 0 4 k = k (take 4 p)"
  by (simp add: with_slice_def)

lemma parsePtyRequest_unfold:
  "parsePtyRequest p =
    (if length p < 4 then Malformed
     else let n = unat (Uint32 (take 4 p)) in
       if length p < 12 + n then Malformed
       else Parsed (take n (drop 4 p), uint (Uint32 (take 4 (drop (4 + n) p))),
                    uint (Uint32 (take 4 (drop (8 + n) p)))))"
proof (cases "length p < 4")
  case True
  then show ?thesis by (simp add: parsePtyRequest_def)
next
  case False
  define n where "n = unat (Uint32 (take 4 p))"
  have u: "uint (Uint32 (take 4 p)) = int n" unfolding n_def uint_nat ..
  have s4: "with_slice p 0 4 k = k (take 4 p)" for k :: "bytes \<Rightarrow> (string \<times> int \<times> int) parsed"
    using False by (intro with_slice_prefix) simp
  have P: "parsePtyRequest p =
     (if int (length p) < 4 + int n + 8 then Malformed
      else with_slice p (int 4) (int (4 + n)) (\<lambda>term.
          with_slice p (int (4 + n)) (int (8 + n)) (\<lambda>cols.
            with_slice p (int (8 + n)) (int (12 + n)) (\<lambda>rows.
              Parsed (term, uint (Uint32 cols), uint (Uint32 rows))))))"
    using False unfolding parsePtyRequest_def s4 Let_def u by simp
  show ?thesis
    using False unfolding P with_slice_nat Let_def n_def [symmetric] by simp
qed

text \<open>
  C14. The \<open>pty-req\<close> parser is exact as well: it never panics, and it returns a terminal name
  and a size precisely when the payload starts with their encodings (the size in columns, then
  rows, each below \<open>2^32\<close>); what follows (pixel sizes, terminal modes) is ignored.
\<close>

theorem pty_parser_exact:
  assumes len: "length p < 2 ^ 32"
  shows "parsePtyRequest p \<noteq> Panic
    \<and> (parsePtyRequest p = Parsed (t, cols, rows) \<longleftrightarrow>
        (\<exists>c r rest. p = encode_string t @ encode_u32 c @ encode_u32 r @ rest
           \<and> cols = uint c \<and> rows = uint r))"
proof -
  let ?n = "unat (Uint32 (take 4 p))"
  have "parsePtyRequest p = Parsed (t, cols, rows) \<longleftrightarrow>
     (4 \<le> length p \<and> 12 + ?n \<le> length p \<and> t = take ?n (drop 4 p)
      \<and> cols = uint (Uint32 (take 4 (drop (4 + ?n) p))) \<and> rows = uint (Uint32 (take 4 (drop (8 + ?n) p))))"
    unfolding parsePtyRequest_unfold Let_def by auto
  also have "\<dots> \<longleftrightarrow> (\<exists>c r rest. p = encode_string t @ encode_u32 c @ encode_u32 r @ rest
           \<and> cols = uint c \<and> rows = uint r)" (is "?A \<longleftrightarrow> ?B")
  proof
    assume a: ?A
    let ?q = "drop (4 + ?n) p"
    have q: "?q = take 4 ?q @ take 4 (drop 4 ?q) @ drop 8 ?q"
      by (metis append_take_drop_id drop_drop numeral_Bit0)
    from a have "12 + ?n \<le> length p" by blast
    then have "length (take 4 ?q) = 4" "length (take 4 (drop 4 ?q)) = 4" by simp_all
    then have "?q = encode_u32 (Uint32 (take 4 ?q)) @ encode_u32 (Uint32 (take 4 (drop 4 ?q))) @ drop 8 ?q"
      using q by (simp add: encode_Uint32)
    moreover have "p = encode_string t @ ?q" using string_field [OF refl, of p] a by simp
    ultimately have "p = encode_string t @ encode_u32 (Uint32 (take 4 ?q))
        @ encode_u32 (Uint32 (take 4 (drop 4 ?q))) @ drop 8 ?q" by simp
    moreover have "drop 4 ?q = drop (8 + ?n) p" by (simp add: add.commute)
    ultimately show ?B using a by metis
  next
    assume ?B
    then obtain c r rest where p: "p = encode_string t @ encode_u32 c @ encode_u32 r @ rest"
      and cr: "cols = uint c" "rows = uint r" by blast
    with len have lt: "length t < 2 ^ 32" by simp
    note t = take_encode_string [OF lt]
    have n: "?n = length t" unfolding p t(1) Uint32_encode t(2) ..
    have q: "drop (4 + length t) p = encode_u32 c @ encode_u32 r @ rest" unfolding p t(4) ..
    then have "drop (8 + length t) p = encode_u32 r @ rest"
      using drop_drop [of 4 "4 + length t" p] by simp
    with q p cr t(3) show ?A unfolding n by simp
  qed
  finally show ?thesis unfolding parsePtyRequest_unfold by (auto simp: Let_def)
qed

lemma pty_parser_exact_witness:
  "parsePtyRequest (encode_string ''xterm'' @ encode_u32 120 @ encode_u32 40 @ []) = Parsed (''xterm'', 120, 40)"
  by (rule iffD2 [OF conjunct2 [OF pty_parser_exact]])
     (simp, intro exI [of _ 120] exI [of _ 40] exI [of _ "[]"], simp)

lemma parseExecPayload_unfold:
  assumes len: "length p < 2 ^ 32"
  shows "parseExecPayload p old =
     (if 4 < length p \<and> 4 + unat (Uint32 (take 4 p)) \<le> length p
      then Parsed (take (unat (Uint32 (take 4 p))) (drop 4 p)) else Parsed old)"
proof -
  define n where "n = unat (Uint32 (take 4 p))"
  have u: "uint (Uint32 (take 4 p)) = int n" unfolding n_def uint_nat ..
  show ?thesis
  proof (cases "4 < length p \<and> 4 + n \<le> length p")
    case True
    then have "unat (4 + Uint32 (take 4 p)) = 4 + n"
      using unat_u32_add [of 4 "Uint32 (take 4 p)"] len by (simp add: n_def)
    then have o: "uint (4 + Uint32 (take 4 p)) = int (4 + n)" unfolding uint_nat by (simp only:)
    from True show ?thesis
      using with_slice_nat [of p 4 "4 + n" "Parsed :: bytes \<Rightarrow> string parsed"]
      unfolding parseExecPayload_def Let_def with_slice_prefix [OF less_imp_le [OF conjunct1 [OF True]]] o u
      by (simp add: n_def [symmetric])
  next
    case False
    have "with_slice p 0 4 k = k (take 4 p)" if "4 < length p" for k :: "bytes \<Rightarrow> string parsed"
      using that by (intro with_slice_prefix) simp
    with False u show ?thesis unfolding parseExecPayload_def Let_def n_def [symmetric] by auto
  qed
qed

text \<open>
  C15. The \<open>exec\<close> and \<open>window-change\<close> parsers are total on packets. An \<open>exec\<close> payload
  of more than four bytes that starts with the encoding of a command yields this command. Every
  other payload leaves the command variable as it was, among them the bare four-byte encoding of
  the empty command; none panics. A window change replaces both dimensions when it carries both
  and none when it is short.
\<close>

theorem exec_window_parsers:
  assumes len: "length p < 2 ^ 32"
  shows "(4 < length p \<and> p = encode_string cmd @ rest \<longrightarrow> parseExecPayload p old = Parsed cmd)
    \<and> ((\<nexists>cmd' rest'. 4 < length p \<and> p = encode_string cmd' @ rest') \<longrightarrow> parseExecPayload p old = Parsed old)
    \<and> parseExecPayload (encode_string []) old = Parsed old
    \<and> parseWindowChange (encode_u32 c @ encode_u32 r @ rest) cols rows = (uint c, uint r)
    \<and> (length p < 8 \<longrightarrow> parseWindowChange p cols rows = (cols, rows))"
proof -
  define n where "n = unat (Uint32 (take 4 p))"
  have P: "parseExecPayload p old =
     (if 4 < length p \<and> 4 + n \<le> length p then Parsed (take n (drop 4 p)) else Parsed old)"
    unfolding n_def by (rule parseExecPayload_unfold [OF len])
  have "parseExecPayload p old = Parsed cmd" if a: "4 < length p" "p = encode_string cmd @ rest"
    using a string_field_exact [OF len, of cmd] unfolding P Let_def n_def by auto
  moreover have "parseExecPayload p old = Parsed old"
    if a: "\<nexists>cmd' rest'. 4 < length p \<and> p = encode_string cmd' @ rest'"
    using a string_field [OF refl, of p] unfolding P n_def by auto
  moreover have "parseExecPayload (encode_string []) old = Parsed old"
    by (simp add: parseExecPayload_def encode_string_def)
  ultimately show ?thesis by (auto simp: parseWindowChange_def)
qed

lemma exec_window_parsers_witness:
  "parseExecPayload (encode_string ''uname'' @ []) [] = Parsed ''uname''"
  using exec_window_parsers [of "encode_string ''uname'' @ []" "''uname''" "[]" "[]"] by simp

section \<open>No panics on packets\<close>

lemma parseEnvPayload_not_panic: "length p < 2 ^ 32 \<Longrightarrow> parseEnvPayload p \<noteq> Panic"
  unfolding parseEnvPayload_unfold by (auto simp: Let_def)

lemma parsePty_not_panic: "length p < 2 ^ 32 \<Longrightarrow> parsePtyRequest p \<noteq> Panic"
  unfolding parsePtyRequest_unfold by (auto simp: Let_def)

lemma parseExec_parsed: "length p < 2 ^ 32 \<Longrightarrow> \<exists>c. parseExecPayload p old = Parsed c"
  using parseExecPayload_unfold [of p old] by simp

end
