(* ===== verification/Metrics.thy ===== *)
theory Metrics
  imports Go_Strings
begin

text \<open>
  \<open>internal/metrics/metrics.go\<close>: the Prometheus collector. A counter is a natural number that
  only grows, a gauge an integer, a counter vector a function from label values. The registry
  and the HTTP handler belong to the Prometheus library and are not part of the model.
\<close>

section \<open>State and operations\<close>

record collector =
  sshConnectionsTotal :: nat
  sshConnectionsActive :: int
  sshHandshakeFailures :: nat
  proxySessionsTotal :: "string \<Rightarrow> nat"
  ssoConfirmations :: "string \<Rightarrow> nat"
  ssoPendingSessions :: int
  ssoErrorsTotal :: nat

definition NewCollector :: collector where
  "NewCollector = \<lparr>sshConnectionsTotal = 0, sshConnectionsActive = 0, sshHandshakeFailures = 0,
     proxySessionsTotal = (\<lambda>_. 0), ssoConfirmations = (\<lambda>_. 0), ssoPendingSessions = 0,
     ssoErrorsTotal = 0\<rparr>"

definition normalizeResult :: "unicode \<Rightarrow> string \<Rightarrow> string" where
  "normalizeResult U result =
     (let r = ToLower U (TrimSpace result) in
      if r = ''success'' \<or> r = ''failure'' \<or> r = ''rejected'' then r else ''unknown'')"

definition SSHConnectionOpened :: "collector option \<Rightarrow> collector option" where
  "SSHConnectionOpened c = map_option (\<lambda>m.
     m\<lparr>sshConnectionsTotal := Suc (sshConnectionsTotal m),
       sshConnectionsActive := sshConnectionsActive m + 1\<rparr>) c"

definition SSHConnectionClosed :: "collector option \<Rightarrow> collector option" where
  "SSHConnectionClosed c = map_option (\<lambda>m. m\<lparr>sshConnectionsActive := sshConnectionsActive m - 1\<rparr>) c"

definition RecordSSHHandshakeFailure :: "collector option \<Rightarrow> collector option" where
  "RecordSSHHandshakeFailure c =
     map_option (\<lambda>m. m\<lparr>sshHandshakeFailures := Suc (sshHandshakeFailures m)\<rparr>) c"

definition RecordProxySession :: "unicode \<Rightarrow> string \<Rightarrow> collector option \<Rightarrow> collector option" where
  "RecordProxySession U result c = map_option (\<lambda>m.
     let l = normalizeResult U result in
     m\<lparr>proxySessionsTotal := (proxySessionsTotal m)(l := Suc (proxySessionsTotal m l))\<rparr>) c"

definition RecordSSOConfirmation :: "unicode \<Rightarrow> string \<Rightarrow> collector option \<Rightarrow> collector option" where
  "RecordSSOConfirmation U result c = map_option (\<lambda>m.
     let l = normalizeResult U result in
     m\<lparr>ssoConfirmations := (ssoConfirmations m)(l := Suc (ssoConfirmations m l))\<rparr>) c"

definition SSOWaitingStarted :: "collector option \<Rightarrow> collector option" where
  "SSOWaitingStarted c = map_option (\<lambda>m. m\<lparr>ssoPendingSessions := ssoPendingSessions m + 1\<rparr>) c"

definition SSOWaitingFinished :: "collector option \<Rightarrow> collector option" where
  "SSOWaitingFinished c = map_option (\<lambda>m. m\<lparr>ssoPendingSessions := ssoPendingSessions m - 1\<rparr>) c"

definition RecordSSOError :: "collector option \<Rightarrow> collector option" where
  "RecordSSOError c = map_option (\<lambda>m. m\<lparr>ssoErrorsTotal := Suc (ssoErrorsTotal m)\<rparr>) c"

lemmas metrics_defs = SSHConnectionOpened_def SSHConnectionClosed_def RecordSSHHandshakeFailure_def
  RecordProxySession_def RecordSSOConfirmation_def SSOWaitingStarted_def SSOWaitingFinished_def
  RecordSSOError_def

definition result_labels :: "string list" where
  "result_labels = [''success'', ''failure'', ''rejected'', ''unknown'']"

lemma normalizeResult_label: "normalizeResult U r \<in> set result_labels"
  by (auto simp: normalizeResult_def Let_def result_labels_def)

lemma normalizeResult_idem [simp]: "l \<in> set result_labels \<Longrightarrow> normalizeResult U l = l"
  by (auto simp: result_labels_def normalizeResult_def lower_word_def byte_def)

section \<open>Histories\<close>

text \<open>The calls of the collector, and a history of them.\<close>

datatype metric_event =
    ConnOpened | ConnClosed | HandshakeFailed | ProxySession string
  | SSOConfirmed string | SSOStarted | SSOFinished | SSOErrored

fun apply_event :: "unicode \<Rightarrow> metric_event \<Rightarrow> collector option \<Rightarrow> collector option" where
  "apply_event U ConnOpened c = SSHConnectionOpened c"
| "apply_event U ConnClosed c = SSHConnectionClosed c"
| "apply_event U HandshakeFailed c = RecordSSHHandshakeFailure c"
| "apply_event U (ProxySession r) c = RecordProxySession U r c"
| "apply_event U (SSOConfirmed r) c = RecordSSOConfirmation U r c"
| "apply_event U SSOStarted c = SSOWaitingStarted c"
| "apply_event U SSOFinished c = SSOWaitingFinished c"
| "apply_event U SSOErrored c = RecordSSOError c"

text \<open>The results reported in a history, in order.\<close>

fun proxy_results :: "metric_event list \<Rightarrow> string list" where
  "proxy_results [] = []"
| "proxy_results (e # es) =
     (case e of ProxySession r \<Rightarrow> r # proxy_results es | _ \<Rightarrow> proxy_results es)"

fun sso_results :: "metric_event list \<Rightarrow> string list" where
  "sso_results [] = []"
| "sso_results (e # es) = (case e of SSOConfirmed r \<Rightarrow> r # sso_results es | _ \<Rightarrow> sso_results es)"

lemma results_append [simp]:
  "proxy_results (xs @ ys) = proxy_results xs @ proxy_results ys"
  "sso_results (xs @ ys) = sso_results xs @ sso_results ys"
  by (induction xs) (auto split: metric_event.split)

text \<open>
  C16. The collector counts histories exactly, for every sequence of calls: the gauges are the
  number of openings minus the number of closings, each counter the number of its calls, each
  label of a vector the number of calls whose result normalises to it, and no label outside
  the four documented ones ever leaves zero. A nil collector ignores every call.
\<close>

theorem metrics_count_history:
  "fold (apply_event U) es (Some NewCollector) = Some
     \<lparr>sshConnectionsTotal = count_list es ConnOpened,
      sshConnectionsActive = int (count_list es ConnOpened) - int (count_list es ConnClosed),
      sshHandshakeFailures = count_list es HandshakeFailed,
      proxySessionsTotal = count_list (map (normalizeResult U) (proxy_results es)),
      ssoConfirmations = count_list (map (normalizeResult U) (sso_results es)),
      ssoPendingSessions = int (count_list es SSOStarted) - int (count_list es SSOFinished),
      ssoErrorsTotal = count_list es SSOErrored\<rparr>
   \<and> {l. 0 < count_list (map (normalizeResult U) (proxy_results es @ sso_results es)) l} \<subseteq> set result_labels
   \<and> fold (apply_event U) es None = None"
proof (intro conjI)
  show "{l. 0 < count_list (map (normalizeResult U) (proxy_results es @ sso_results es)) l} \<subseteq> set result_labels"
  proof
    fix l assume "l \<in> {l. 0 < count_list (map (normalizeResult U) (proxy_results es @ sso_results es)) l}"
    then have "l \<in> set (map (normalizeResult U) (proxy_results es @ sso_results es))"
      using count_list_0_iff [of "map (normalizeResult U) (proxy_results es @ sso_results es)" l] by force
    then show "l \<in> set result_labels" using normalizeResult_label by auto
  qed
  have "apply_event U e None = None" for e by (cases e) (simp_all add: metrics_defs)
  then show "fold (apply_event U) es None = None" by (induction es) auto
next
  show "fold (apply_event U) es (Some NewCollector) = Some
     \<lparr>sshConnectionsTotal = count_list es ConnOpened,
      sshConnectionsActive = int (count_list es ConnOpened) - int (count_list es ConnClosed),
      sshHandshakeFailures = count_list es HandshakeFailed,
      proxySessionsTotal = count_list (map (normalizeResult U) (proxy_results es)),
      ssoConfirmations = count_list (map (normalizeResult U) (sso_results es)),
      ssoPendingSessions = int (count_list es SSOStarted) - int (count_list es SSOFinished),
      ssoErrorsTotal = count_list es SSOErrored\<rparr>"
  proof (induction es rule: rev_induct)
    case Nil
    show ?case by (simp add: NewCollector_def fun_eq_iff)
  next
    case (snoc e es)
    then show ?case by (cases e) (auto simp: metrics_defs Let_def fun_upd_def fun_eq_iff)
  qed
qed

end
