(* ===== verification/Keywords.thy ===== *)
theory Keywords
  imports Go_Strings
begin

text \<open>
  The contract shared by the three normalisers of configuration keywords (routing mode,
  recording format, SSO provider): a value is supported when its normal form is one of a
  fixed list of keywords, and every keyword is its own normal form.
\<close>

locale keyword_normalizer =
  fixes norm :: "string \<Rightarrow> string"
    and supported :: "string \<Rightarrow> bool"
    and canon :: "string list"
  assumes norm_keyword: "k \<in> set canon \<Longrightarrow> norm k = k"
    and supported_iff: "supported x \<longleftrightarrow> norm x \<in> set canon"
begin

lemma keyword_supported: "k \<in> set canon \<Longrightarrow> supported k"
  by (simp add: supported_iff norm_keyword)

lemma norm_idem: "supported x \<Longrightarrow> norm (norm x) = norm x"
  by (simp add: supported_iff norm_keyword)

lemma norm_supported: "supported x \<Longrightarrow> supported (norm x)"
  by (simp add: supported_iff norm_keyword)

lemma fixpoint_iff: "supported x \<and> norm x = x \<longleftrightarrow> x \<in> set canon"
  by (metis norm_keyword supported_iff)

end

end
