(* ===== verification/SSO.thy ===== *)
theory SSO
  imports Keywords
begin

text \<open>
  \<open>internal/sso/sso.go\<close>: the OAuth 2.0 device flow against Keycloak. The HTTP exchange, the
  decoding of reply bodies (package \<open>encoding/json\<close>, and base64 for the token payload), URL
  parsing and the printing of durations are the fields of \<open>sso_env\<close>; the clock is a number of
  nanoseconds that the polling loop advances. Polling runs on fuel; \<open>poll_fuel\<close> is enough.
\<close>

section \<open>Identities\<close>

record identity =
  Subject :: string
  PreferredUsername :: string
  Email :: string

definition no_identity :: identity where
  "no_identity = \<lparr>Subject = [], PreferredUsername = [], Email = []\<rparr>"

fun first_nonblank :: "string list \<Rightarrow> string" where
  "first_nonblank [] = []"
| "first_nonblank (value # rest) =
     (if TrimSpace value \<noteq> [] then TrimSpace value else first_nonblank rest)"

definition BestIdentifier :: "identity \<Rightarrow> string" where
  "BestIdentifier i = first_nonblank [PreferredUsername i, Email i, Subject i]"

text \<open>The loop over the candidates; \<open>at > 0\<close> holds when a non-empty part precedes the sign.\<close>

fun any_candidate_matches :: "unicode \<Rightarrow> string \<Rightarrow> string list \<Rightarrow> bool" where
  "any_candidate_matches U user [] = False"
| "any_candidate_matches U user (candidate # rest) =
     (let c = ToLower U (TrimSpace candidate) in
      if c = [] then any_candidate_matches U user rest
      else if c = user then True
      else (case Cut c (CHR ''@'') of
          Some (local_part, _) \<Rightarrow>
            if local_part \<noteq> [] \<and> local_part = user then True else any_candidate_matches U user rest
        | None \<Rightarrow> any_candidate_matches U user rest))"

definition MatchesSSHUser :: "unicode \<Rightarrow> identity \<Rightarrow> string \<Rightarrow> bool" where
  "MatchesSSHUser U i user0 =
     (let user = ToLower U (TrimSpace user0) in
      if user = [] then False
      else any_candidate_matches U user [PreferredUsername i, Email i, Subject i])"

section \<open>Configuration\<close>

definition DefaultProvider :: string where "DefaultProvider = ''keycloak''"
definition DefaultBaseURL :: string where "DefaultBaseURL = ''http://localhost:8080''"
definition DefaultRealm :: string where "DefaultRealm = ''ssh-proxy-server''"
definition DefaultClientID :: string where "DefaultClientID = ''ssh-proxy-server''"
definition DefaultScope :: string where "DefaultScope = ''openid''"
definition DefaultAuthTimeoutSeconds :: int where "DefaultAuthTimeoutSeconds = 120"
definition DefaultPollIntervalSeconds :: int where "DefaultPollIntervalSeconds = 5"
definition DefaultRequestTimeoutSeconds :: int where "DefaultRequestTimeoutSeconds = 10"

record sso_config =
  cfgEnabled :: bool
  cfgProvider :: string
  cfgBaseURL :: string
  cfgRealm :: string
  cfgClientID :: string
  cfgClientSecret :: string
  cfgScope :: string
  cfgAuthTimeout :: int
  cfgPollInterval :: int
  cfgRequestTimeout :: int
  cfgEnforceUserMatch :: bool
  cfgInsecureSkipVerify :: bool

definition NormalizeProvider :: "unicode \<Rightarrow> string \<Rightarrow> string" where
  "NormalizeProvider U provider =
     (let p = ToLower U (TrimSpace provider) in if p = [] then DefaultProvider else p)"

definition IsSupportedProvider :: "unicode \<Rightarrow> string \<Rightarrow> bool" where
  "IsSupportedProvider U provider \<longleftrightarrow> NormalizeProvider U provider = DefaultProvider"

lemma DefaultProvider_word [simp]: "lower_word DefaultProvider" "DefaultProvider \<noteq> []"
  by (simp_all add: DefaultProvider_def lower_word_def byte_def)

interpretation provider: keyword_normalizer "NormalizeProvider U" "IsSupportedProvider U" "[DefaultProvider]" for U
  by unfold_locales (simp_all add: NormalizeProvider_def IsSupportedProvider_def Let_def)

text \<open>\<open>url.PathEscape\<close>: the bytes of a path segment that stand for themselves.\<close>

definition segment_byte :: "char \<Rightarrow> bool" where
  "segment_byte c \<longleftrightarrow>
     (0x41 \<le> byte c \<and> byte c \<le> 0x5A) \<or> (0x61 \<le> byte c \<and> byte c \<le> 0x7A) \<or> is_digit c
     \<or> c \<in> set ''-_.~$&+:=@''"

definition hex_digit :: "nat \<Rightarrow> char" where
  "hex_digit n = ''0123456789ABCDEF'' ! n"

definition PathEscape :: "string \<Rightarrow> string" where
  "PathEscape s = concat (map (\<lambda>c. if segment_byte c then [c]
     else [CHR ''%'', hex_digit (byte c div 16), hex_digit (byte c mod 16)]) s)"

definition issuerURL :: "sso_config \<Rightarrow> string" where
  "issuerURL cfg =
     (let baseURL = TrimRight (TrimSpace (cfgBaseURL cfg)) ''/'';
          realm = Trim (TrimSpace (cfgRealm cfg)) ''/''
      in baseURL @ ''/realms/'' @ PathEscape realm)"

text \<open>The defaults at the head of \<open>AuthenticateDeviceFlow\<close>.\<close>

definition with_defaults :: "sso_config \<Rightarrow> sso_config" where
  "with_defaults cfg = cfg\<lparr>
     cfgBaseURL := (if TrimSpace (cfgBaseURL cfg) = [] then DefaultBaseURL else cfgBaseURL cfg),
     cfgRealm := (if TrimSpace (cfgRealm cfg) = [] then DefaultRealm else cfgRealm cfg),
     cfgClientID := (if TrimSpace (cfgClientID cfg) = [] then DefaultClientID else cfgClientID cfg),
     cfgScope := (if TrimSpace (cfgScope cfg) = [] then DefaultScope else cfgScope cfg),
     cfgAuthTimeout := (if cfgAuthTimeout cfg \<le> 0 then seconds DefaultAuthTimeoutSeconds else cfgAuthTimeout cfg),
     cfgPollInterval := (if cfgPollInterval cfg \<le> 0 then seconds DefaultPollIntervalSeconds else cfgPollInterval cfg),
     cfgRequestTimeout := (if cfgRequestTimeout cfg \<le> 0 then seconds DefaultRequestTimeoutSeconds else cfgRequestTimeout cfg)\<rparr>"

section \<open>Requests and replies\<close>

record discoveryDocument =
  DeviceAuthorizationEndpoint :: string
  TokenEndpoint :: string

record deviceAuthorizationResponse =
  DeviceCode :: string
  UserCode :: string
  VerificationURI :: string
  VerificationURIComplete :: string
  ExpiresIn :: int
  Interval :: int

record tokenErrorResponse =
  ErrorCode :: string
  ErrorDescription :: string

record tokenSuccessResponse =
  AccessToken :: string
  IDToken :: string
  TokenType :: string

text \<open>A JSON claim: a string, or a value of another type.\<close>

datatype claim = StringClaim string | OtherClaim

text \<open>A request: its URL, the form of a POST (\<open>None\<close> for GET), the basic-auth credentials.\<close>

record http_request =
  reqURL :: string
  reqForm :: "(string \<times> string) list option"
  reqAuth :: "(string \<times> string) option"

datatype http_reply = TransportError | Reply (StatusCode: int) (Status: string) (Body: bytes)

text \<open>An \<open>http.Client\<close>: its timeout and whether it skips certificate verification.\<close>

record http_client =
  clTimeout :: int
  clInsecure :: bool

text \<open>
  The environment: the reply and the duration of the \<open>n\<close>-th request, the decoders, and the
  choice \<open>select\<close> makes when the deadline and the timer fall together.
\<close>

record sso_env =
  urlOk :: "string \<Rightarrow> bool"
  httpDo :: "nat \<Rightarrow> http_client \<Rightarrow> http_request \<Rightarrow> http_reply"
  httpTime :: "nat \<Rightarrow> nat"
  doneFirst :: "nat \<Rightarrow> bool"
  decodeDiscovery :: "bytes \<Rightarrow> discoveryDocument option"
  decodeDevice :: "bytes \<Rightarrow> deviceAuthorizationResponse option"
  decodeTokenError :: "bytes \<Rightarrow> tokenErrorResponse"
  decodeToken :: "bytes \<Rightarrow> tokenSuccessResponse option"
  decodeClaims :: "string \<Rightarrow> (string \<times> claim) list option"
  showDuration :: "int \<Rightarrow> string"

datatype sso_error =
    UnsupportedProvider | BadRequestURL | DiscoveryUnreachable | DiscoveryStatus string
  | DiscoveryUndecodable | DiscoveryIncomplete | DeviceUnreachable | DeviceRefused string
  | DeviceUndecodable | DeviceCodeMissing | ConfirmationTimedOut | PollUnreachable
  | TokenUndecodable | DeviceCodeExpired | ConfirmationFailed string

definition status_ok :: "int \<Rightarrow> bool" where
  "status_ok code \<longleftrightarrow> 200 \<le> code \<and> code < 300"

section \<open>Error messages and claims\<close>

definition client_hint :: string where
  "client_hint = ''. Check `sso.client_id`, set `sso.client_secret` if the Keycloak client is confidential, and enable the OAuth 2.0 Device Authorization Grant for that client''"

definition formatOAuthErrorMessage :: "unicode \<Rightarrow> tokenErrorResponse \<Rightarrow> string \<Rightarrow> string" where
  "formatOAuthErrorMessage U tokenErr fallback =
     (let message = TrimSpace (ErrorDescription tokenErr);
          message = (if message = [] then TrimSpace (ErrorCode tokenErr) else message);
          message = (if message = [] then fallback else message)
      in if ErrorCode tokenErr = ''invalid_client'' \<or> ErrorCode tokenErr = ''unauthorized_client''
         then message @ client_hint
         else (let lower = ToLower U message in
           if Contains lower ''invalid client'' \<or> Contains lower ''invalid client credentials''
           then message @ client_hint else message))"

fun firstStringClaim :: "(string \<times> claim) list \<Rightarrow> string list \<Rightarrow> string" where
  "firstStringClaim claims [] = []"
| "firstStringClaim claims (key # keys) =
     (case map_of claims key of
        Some (StringClaim text) \<Rightarrow>
          if TrimSpace text \<noteq> [] then TrimSpace text else firstStringClaim claims keys
      | _ \<Rightarrow> firstStringClaim claims keys)"

definition extractIdentityFromJWT :: "sso_env \<Rightarrow> string \<Rightarrow> identity" where
  "extractIdentityFromJWT E token0 =
     (let token = TrimSpace token0 in
      if token = [] then no_identity
      else (let parts = Split token (CHR ''.'') in
        if length parts < 2 then no_identity
        else (case decodeClaims E (parts ! 1) of
            None \<Rightarrow> no_identity
          | Some claims \<Rightarrow>
              \<lparr>Subject = firstStringClaim claims [''sub''],
               PreferredUsername = firstStringClaim claims [''preferred_username'', ''username'', ''upn''],
               Email = firstStringClaim claims [''email'']\<rparr>)))"

definition identityFromTokenResponse :: "sso_env \<Rightarrow> tokenSuccessResponse \<Rightarrow> identity" where
  "identityFromTokenResponse E tokenResp =
     (let i = extractIdentityFromJWT E (IDToken tokenResp) in
      if BestIdentifier i \<noteq> [] then i else extractIdentityFromJWT E (AccessToken tokenResp))"

section \<open>The HTTP client cache and one exchange\<close>

text \<open>
  The cache key prints the two settings that a client depends on; the printing is injective,
  so the pair itself is the key.
\<close>

type_synonym client_cache = "((bool \<times> int) \<times> http_client) list"

definition httpClient :: "sso_config \<Rightarrow> client_cache \<Rightarrow> http_client \<times> client_cache" where
  "httpClient cfg cache =
     (let cacheKey = (cfgInsecureSkipVerify cfg, cfgRequestTimeout cfg) in
      case map_of cache cacheKey of
        Some client \<Rightarrow> (client, cache)
      | None \<Rightarrow>
          (let timeout = (if cfgRequestTimeout cfg > 0 then cfgRequestTimeout cfg
                          else seconds DefaultRequestTimeoutSeconds);
               client = \<lparr>clTimeout = timeout, clInsecure = cfgInsecureSkipVerify cfg\<rparr>
           in (client, (cacheKey, client) # cache)))"

text \<open>What a flow carries along: the clock, the cache, and the requests sent so far.\<close>

record net_state =
  clock :: int
  clients :: client_cache
  trace :: "(http_client \<times> http_request) list"

definition do_request :: "sso_env \<Rightarrow> sso_config \<Rightarrow> http_request \<Rightarrow> net_state \<Rightarrow> http_reply \<times> net_state" where
  "do_request E cfg req ns =
     (let n = length (trace ns); (client, cache) = httpClient cfg (clients ns)
      in (httpDo E n client req,
          ns\<lparr>clock := clock ns + int (httpTime E n), clients := cache, trace := trace ns @ [(client, req)]\<rparr>))"

section \<open>The device flow\<close>

definition fetchDiscoveryDocument ::
  "sso_env \<Rightarrow> sso_config \<Rightarrow> net_state \<Rightarrow> (sso_error + discoveryDocument) \<times> net_state" where
  "fetchDiscoveryDocument E cfg ns =
     (let endpoint = issuerURL cfg @ ''/.well-known/openid-configuration'' in
      if \<not> urlOk E endpoint then (Inl BadRequestURL, ns)
      else (case do_request E cfg \<lparr>reqURL = endpoint, reqForm = None, reqAuth = None\<rparr> ns of
          (TransportError, ns) \<Rightarrow> (Inl DiscoveryUnreachable, ns)
        | (Reply code status body, ns) \<Rightarrow>
            if \<not> status_ok code then (Inl (DiscoveryStatus status), ns)
            else (case decodeDiscovery E body of
                None \<Rightarrow> (Inl DiscoveryUndecodable, ns)
              | Some doc \<Rightarrow>
                  if TrimSpace (DeviceAuthorizationEndpoint doc) = [] \<or> TrimSpace (TokenEndpoint doc) = []
                  then (Inl DiscoveryIncomplete, ns) else (Inr doc, ns))))"

definition secret_field :: "sso_config \<Rightarrow> (string \<times> string) list" where
  "secret_field cfg =
     (if TrimSpace (cfgClientSecret cfg) \<noteq> [] then [(''client_secret'', cfgClientSecret cfg)] else [])"

definition basic_auth :: "sso_config \<Rightarrow> (string \<times> string) option" where
  "basic_auth cfg =
     (if TrimSpace (cfgClientSecret cfg) \<noteq> [] then Some (cfgClientID cfg, cfgClientSecret cfg) else None)"

definition startDeviceAuthorization ::
  "unicode \<Rightarrow> sso_env \<Rightarrow> sso_config \<Rightarrow> string \<Rightarrow> net_state
     \<Rightarrow> (sso_error + deviceAuthorizationResponse) \<times> net_state" where
  "startDeviceAuthorization U E cfg endpoint ns =
     (let values = [(''client_id'', cfgClientID cfg)] @ secret_field cfg
            @ (if TrimSpace (cfgScope cfg) \<noteq> [] then [(''scope'', cfgScope cfg)] else []) in
      if \<not> urlOk E endpoint then (Inl BadRequestURL, ns)
      else (case do_request E cfg \<lparr>reqURL = endpoint, reqForm = Some values, reqAuth = basic_auth cfg\<rparr> ns of
          (TransportError, ns) \<Rightarrow> (Inl DeviceUnreachable, ns)
        | (Reply code status body, ns) \<Rightarrow>
            if \<not> status_ok code
            then (Inl (DeviceRefused (formatOAuthErrorMessage U (decodeTokenError E body) status)), ns)
            else (case decodeDevice E body of
                None \<Rightarrow> (Inl DeviceUndecodable, ns)
              | Some deviceAuth \<Rightarrow>
                  if TrimSpace (DeviceCode deviceAuth) = [] then (Inl DeviceCodeMissing, ns)
                  else (Inr deviceAuth, ns))))"

text \<open>The form of a polling request.\<close>

definition poll_request :: "sso_config \<Rightarrow> string \<Rightarrow> string \<Rightarrow> http_request" where
  "poll_request cfg tokenEndpoint deviceCode =
     \<lparr>reqURL = tokenEndpoint,
      reqForm = Some ([(''grant_type'', ''urn:ietf:params:oauth:grant-type:device_code''),
        (''device_code'', deviceCode), (''client_id'', cfgClientID cfg)] @ secret_field cfg),
      reqAuth = basic_auth cfg\<rparr>"

text \<open>
  The \<open>select\<close> at the head of the loop: \<open>None\<close> when the deadline wins, else the time at which
  the timer fired. A timer with a negative wait fires at once.
\<close>

definition wait_or_done :: "sso_env \<Rightarrow> int \<Rightarrow> int \<Rightarrow> net_state \<Rightarrow> int option" where
  "wait_or_done E deadline wait ns =
     (let done_at = max deadline (clock ns); fires_at = clock ns + max 0 wait in
      if done_at < fires_at then None
      else if fires_at < done_at then Some fires_at
      else if doneFirst E (length (trace ns)) then None else Some fires_at)"

text \<open>\<open>pollForToken\<close>: one unit of fuel per iteration; \<open>None\<close> when it runs out.\<close>

fun pollForToken ::
  "unicode \<Rightarrow> sso_env \<Rightarrow> sso_config \<Rightarrow> string \<Rightarrow> string \<Rightarrow> int \<Rightarrow> int \<Rightarrow> nat \<Rightarrow> int \<Rightarrow> net_state
     \<Rightarrow> ((sso_error + identity) \<times> net_state) option" where
  "pollForToken U E cfg tokenEndpoint deviceCode pollInterval deadline 0 wait ns = None"
| "pollForToken U E cfg tokenEndpoint deviceCode pollInterval deadline (Suc fuel) wait ns =
     (case wait_or_done E deadline wait ns of
        None \<Rightarrow> Some (Inl ConfirmationTimedOut, ns)
      | Some t \<Rightarrow>
          let ns = ns\<lparr>clock := t\<rparr> in
          if \<not> urlOk E tokenEndpoint then Some (Inl BadRequestURL, ns)
          else (case do_request E cfg (poll_request cfg tokenEndpoint deviceCode) ns of
              (TransportError, ns) \<Rightarrow> Some (Inl PollUnreachable, ns)
            | (Reply code status body, ns) \<Rightarrow>
                if status_ok code then
                  (case decodeToken E body of
                     None \<Rightarrow> Some (Inl TokenUndecodable, ns)
                   | Some tokenResp \<Rightarrow> Some (Inr (identityFromTokenResponse E tokenResp), ns))
                else
                  (let tokenErr = decodeTokenError E body in
                   if ErrorCode tokenErr = ''authorization_pending'' then
                     pollForToken U E cfg tokenEndpoint deviceCode pollInterval deadline fuel pollInterval ns
                   else if ErrorCode tokenErr = ''slow_down'' then
                     pollForToken U E cfg tokenEndpoint deviceCode pollInterval deadline fuel
                       (wrap64 (pollInterval + 5000000000)) ns
                   else if ErrorCode tokenErr = ''expired_token'' then Some (Inl DeviceCodeExpired, ns)
                   else Some (Inl (ConfirmationFailed (formatOAuthErrorMessage U tokenErr status)), ns))))"

text \<open>The fuel that suffices: one unit per poll interval until the deadline, and one more.\<close>

definition poll_fuel :: "int \<Rightarrow> int \<Rightarrow> net_state \<Rightarrow> nat" where
  "poll_fuel deadline pollInterval ns = nat ((deadline - clock ns) div pollInterval) + 1"

text \<open>The lines printed on the SSH console before polling.\<close>

definition confirmation_prompt :: "sso_env \<Rightarrow> sso_config \<Rightarrow> deviceAuthorizationResponse \<Rightarrow> string list" where
  "confirmation_prompt E cfg deviceAuth =
     (let link = TrimSpace (VerificationURIComplete deviceAuth);
          link = (if link = [] then TrimSpace (VerificationURI deviceAuth) else link)
      in [[], ''SSO second-factor confirmation is required before the SSH session can continue.'',
          ''Open this link in your browser: '' @ link]
         @ (if TrimSpace (UserCode deviceAuth) \<noteq> [] \<and> TrimSpace (VerificationURIComplete deviceAuth) = []
            then [''Enter this code if prompted: '' @ UserCode deviceAuth] else [])
         @ [''Waiting up to '' @ showDuration E (cfgAuthTimeout cfg) @ '' for confirmation...'', []])"

definition poll_interval :: "sso_config \<Rightarrow> deviceAuthorizationResponse \<Rightarrow> int" where
  "poll_interval cfg deviceAuth =
     (if Interval deviceAuth > 0 \<and> seconds (Interval deviceAuth) > cfgPollInterval cfg
      then seconds (Interval deviceAuth) else cfgPollInterval cfg)"

text \<open>
  \<open>AuthenticateDeviceFlow\<close>: the result, the state after it, and the lines it printed (none
  when the writer is nil). \<open>None\<close> only if polling does not come to an end.
\<close>

definition AuthenticateDeviceFlow ::
  "unicode \<Rightarrow> sso_env \<Rightarrow> sso_config \<Rightarrow> bool \<Rightarrow> net_state
     \<Rightarrow> ((sso_error + identity) \<times> net_state \<times> string list) option" where
  "AuthenticateDeviceFlow U E cfg has_output ns =
     (let cfg = cfg\<lparr>cfgProvider := NormalizeProvider U (cfgProvider cfg)\<rparr> in
      if \<not> IsSupportedProvider U (cfgProvider cfg) then Some (Inl UnsupportedProvider, ns, [])
      else
        (let cfg = with_defaults cfg; deadline = clock ns + cfgAuthTimeout cfg in
         case fetchDiscoveryDocument E cfg ns of
           (Inl e, ns) \<Rightarrow> Some (Inl e, ns, [])
         | (Inr discovery, ns) \<Rightarrow>
             (case startDeviceAuthorization U E cfg (DeviceAuthorizationEndpoint discovery) ns of
                (Inl e, ns) \<Rightarrow> Some (Inl e, ns, [])
              | (Inr deviceAuth, ns) \<Rightarrow>
                  (let out = (if has_output then confirmation_prompt E cfg deviceAuth else []);
                       pollInterval = poll_interval cfg deviceAuth in
                   case pollForToken U E cfg (TokenEndpoint discovery) (DeviceCode deviceAuth) pollInterval
                          deadline (poll_fuel deadline pollInterval ns) pollInterval ns of
                     None \<Rightarrow> None
                   | Some (Inl e, ns) \<Rightarrow> Some (Inl e, ns, out)
                   | Some (Inr identity, ns) \<Rightarrow>
                       Some (Inr identity, ns,
                         out @ (if has_output
                           then [''SSO confirmation successful. Continuing SSH session...'', []] else []))))))"

section \<open>Matching an identity against the SSH user\<close>

lemma any_candidate_matches_iff:
  assumes "user \<noteq> []"
  shows "any_candidate_matches U user cs \<longleftrightarrow>
    (\<exists>c \<in> set cs. ToLower U (TrimSpace c) = user
       \<or> CHR ''@'' \<notin> set user \<and> (\<exists>domain. ToLower U (TrimSpace c) = user @ CHR ''@'' # domain))"
proof (induction cs)
  case Nil
  then show ?case by simp
next
  case (Cons c cs)
  let ?c = "ToLower U (TrimSpace c)"
  have "any_candidate_matches U user (c # cs) \<longleftrightarrow>
      (?c = user \<or> (\<exists>domain. Cut ?c (CHR ''@'') = Some (user, domain))) \<or> any_candidate_matches U user cs"
    using assms by (cases "?c = []") (auto simp: Let_def Cut_def split: option.splits)
  moreover have "(\<exists>domain. Cut ?c (CHR ''@'') = Some (user, domain)) \<longleftrightarrow>
      CHR ''@'' \<notin> set user \<and> (\<exists>domain. ?c = user @ CHR ''@'' # domain)"
    by (auto dest: Cut_SomeD)
  ultimately show ?case using Cons.IH by simp
qed

text \<open>
  C30. An SSO identity belongs to an SSH user exactly if the trimmed, lower-cased user name is
  not empty and is one of the identity's trimmed, lower-cased names, or the part of one before
  its first at-sign. In particular an identity without names matches nobody, and so does a
  blank user.
\<close>

theorem matches_ssh_user_iff:
  "MatchesSSHUser U i user0 \<longleftrightarrow>
     (let user = ToLower U (TrimSpace user0) in
      user \<noteq> []
      \<and> (\<exists>c \<in> set [PreferredUsername i, Email i, Subject i].
           ToLower U (TrimSpace c) = user
           \<or> CHR ''@'' \<notin> set user \<and> (\<exists>domain. ToLower U (TrimSpace c) = user @ CHR ''@'' # domain)))
   \<and> \<not> (BestIdentifier i = [] \<and> MatchesSSHUser U i user0)"
proof -
  have blank: "ToLower U (TrimSpace c) = []" if "BestIdentifier i = []"
    and "c \<in> set [PreferredUsername i, Email i, Subject i]" for c
    using that by (auto simp: BestIdentifier_def ToLower_def runes_def split: if_splits)
  have iff: "MatchesSSHUser U i user0 \<longleftrightarrow>
     (let user = ToLower U (TrimSpace user0) in
      user \<noteq> []
      \<and> (\<exists>c \<in> set [PreferredUsername i, Email i, Subject i].
           ToLower U (TrimSpace c) = user
           \<or> CHR ''@'' \<notin> set user \<and> (\<exists>domain. ToLower U (TrimSpace c) = user @ CHR ''@'' # domain)))"
    unfolding MatchesSSHUser_def Let_def using any_candidate_matches_iff [of "ToLower U (TrimSpace user0)" U]
    by (cases "ToLower U (TrimSpace user0) = []") (simp_all only: simp_thms if_True if_False)
  have "\<not> (BestIdentifier i = [] \<and> MatchesSSHUser U i user0)"
  proof (cases "BestIdentifier i = []")
    case True
    with blank iff show ?thesis by (metis append_is_Nil_conv list.distinct(1))
  qed simp
  with iff show ?thesis by simp
qed

section \<open>The client cache\<close>

definition fresh_client :: "bool \<Rightarrow> int \<Rightarrow> http_client" where
  "fresh_client insecure timeout =
     \<lparr>clTimeout = (if timeout > 0 then timeout else seconds DefaultRequestTimeoutSeconds),
      clInsecure = insecure\<rparr>"

definition cache_ok :: "client_cache \<Rightarrow> bool" where
  "cache_ok cache \<longleftrightarrow> (\<forall>b t client. map_of cache (b, t) = Some client \<longrightarrow> client = fresh_client b t)"

lemma cache_ok_Nil [simp]: "cache_ok []"
  by (simp add: cache_ok_def)

lemma httpClient_alt:
  "httpClient cfg cache =
     (let key = (cfgInsecureSkipVerify cfg, cfgRequestTimeout cfg) in
      case map_of cache key of
        Some client \<Rightarrow> (client, cache)
      | None \<Rightarrow> (fresh_client (fst key) (snd key), (key, fresh_client (fst key) (snd key)) # cache))"
  by (simp add: httpClient_def fresh_client_def Let_def split: option.splits)

lemma httpClient_fresh:
  assumes "cache_ok cache"
  shows "fst (httpClient cfg cache) = fresh_client (cfgInsecureSkipVerify cfg) (cfgRequestTimeout cfg)"
    and "cache_ok (snd (httpClient cfg cache))"
  using assms by (auto simp: httpClient_alt cache_ok_def Let_def split: option.splits)

lemma httpClient_again [simp]:
  "httpClient cfg (snd (httpClient cfg cache)) = (fst (httpClient cfg cache), snd (httpClient cfg cache))"
  by (auto simp: httpClient_def Let_def split: option.splits)

definition clients_after :: "sso_config list \<Rightarrow> client_cache" where
  "clients_after cfgs = fold (\<lambda>cfg cache. snd (httpClient cfg cache)) cfgs []"

lemma cache_ok_after: "cache_ok cache \<Longrightarrow> cache_ok (fold (\<lambda>cfg cache. snd (httpClient cfg cache)) cfgs cache)"
  by (induction cfgs arbitrary: cache) (auto simp: httpClient_fresh)

text \<open>
  C32. Sharing HTTP clients between flows is invisible. Whatever configurations used the cache
  before, a flow gets a client with its own timeout (the default one if it has none) and with
  certificate checks switched off only if its own configuration says so.
\<close>

lemma http_client_cache_transparent:
  "fst (httpClient cfg (clients_after cfgs)) =
     \<lparr>clTimeout = (if cfgRequestTimeout cfg > 0 then cfgRequestTimeout cfg
                   else seconds DefaultRequestTimeoutSeconds),
      clInsecure = cfgInsecureSkipVerify cfg\<rparr>"
  using httpClient_fresh(1) [OF cache_ok_after [OF cache_ok_Nil]]
  by (simp add: clients_after_def fresh_client_def)

section \<open>Polling comes to an end\<close>

lemma wait_or_done_SomeD:
  assumes "wait_or_done E deadline wait ns = Some t" "0 < wait"
  shows "t = clock ns + wait" and "t \<le> deadline"
  using assms by (auto simp: wait_or_done_def Let_def max_def split: if_splits)

lemma wait_or_done_deadline: "deadline < clock ns + wait \<Longrightarrow> 0 < wait \<Longrightarrow> wait_or_done E deadline wait ns = None"
  by (auto simp: wait_or_done_def Let_def max_def)

lemma do_request_parts:
  "do_request E cfg req ns =
     (httpDo E (length (trace ns)) (fst (httpClient cfg (clients ns))) req,
      \<lparr>clock = clock ns + int (httpTime E (length (trace ns))),
       clients = snd (httpClient cfg (clients ns)),
       trace = trace ns @ [(fst (httpClient cfg (clients ns)), req)]\<rparr>)"
  by (simp add: do_request_def Let_def split: prod.splits)

text \<open>What one round of polling does, with the pending replies named.\<close>

definition keep_waiting :: "sso_env \<Rightarrow> http_reply \<Rightarrow> bool" where
  "keep_waiting E reply = (case reply of
      Reply code status body \<Rightarrow> \<not> status_ok code
        \<and> ErrorCode (decodeTokenError E body) \<in> {''authorization_pending'', ''slow_down''}
    | TransportError \<Rightarrow> False)"

definition next_wait :: "sso_env \<Rightarrow> int \<Rightarrow> http_reply \<Rightarrow> int" where
  "next_wait E pollInterval reply = (case reply of
      Reply code status body \<Rightarrow>
        if ErrorCode (decodeTokenError E body) = ''slow_down''
        then wrap64 (pollInterval + 5000000000) else pollInterval
    | TransportError \<Rightarrow> pollInterval)"

definition poll_result :: "unicode \<Rightarrow> sso_env \<Rightarrow> http_reply \<Rightarrow> sso_error + identity" where
  "poll_result U E reply = (case reply of
      TransportError \<Rightarrow> Inl PollUnreachable
    | Reply code status body \<Rightarrow>
        if status_ok code then
          (case decodeToken E body of
             None \<Rightarrow> Inl TokenUndecodable
           | Some tokenResp \<Rightarrow> Inr (identityFromTokenResponse E tokenResp))
        else if ErrorCode (decodeTokenError E body) = ''expired_token'' then Inl DeviceCodeExpired
        else Inl (ConfirmationFailed (formatOAuthErrorMessage U (decodeTokenError E body) status)))"

lemma pollForToken_round:
  "pollForToken U E cfg ep code pollInterval deadline (Suc fuel) wait ns =
     (case wait_or_done E deadline wait ns of
        None \<Rightarrow> Some (Inl ConfirmationTimedOut, ns)
      | Some t \<Rightarrow>
          if \<not> urlOk E ep then Some (Inl BadRequestURL, ns\<lparr>clock := t\<rparr>)
          else (let (reply, ns') = do_request E cfg (poll_request cfg ep code) (ns\<lparr>clock := t\<rparr>) in
            if keep_waiting E reply
            then pollForToken U E cfg ep code pollInterval deadline fuel (next_wait E pollInterval reply) ns'
            else Some (poll_result U E reply, ns')))"
  by (auto simp: Let_def keep_waiting_def next_wait_def poll_result_def
      split: option.splits prod.splits http_reply.splits)

lemmas poll_simps = pollForToken_round do_request_parts Let_def

declare pollForToken.simps(2) [simp del]

lemma next_wait_ge:
  assumes "0 < pollInterval" "pollInterval + 5000000000 < 2 ^ 63"
  shows "pollInterval \<le> next_wait E pollInterval reply"
proof -
  have "wrap64 (pollInterval + 5000000000) = pollInterval + 5000000000"
    using assms by (intro wrap64_id) auto
  then show ?thesis by (auto simp: next_wait_def split: http_reply.splits)
qed

lemma poll_returns:
  assumes "0 < pollInterval" "pollInterval \<le> wait" "0 < fuel"
    and "deadline - clock ns < int fuel * pollInterval"
    and "deadline - clock ns + 5000000000 < 2 ^ 63"
  shows "pollForToken U E cfg ep code pollInterval deadline fuel wait ns \<noteq> None"
  using assms(2-)
proof (induction fuel arbitrary: wait ns)
  case 0
  then show ?case by simp
next
  case (Suc fuel)
  show ?case
  proof (cases "wait_or_done E deadline wait ns")
    case None
    then show ?thesis by (simp add: poll_simps)
  next
    case (Some t)
    with Suc.prems(1) assms(1) have t: "t = clock ns + wait" "t \<le> deadline"
      by (auto dest: wait_or_done_SomeD)
    let ?n = "length (trace ns)"
    let ?ns = "\<lparr>clock = t + int (httpTime E ?n), clients = snd (httpClient cfg (clients ns)),
      trace = trace ns @ [(fst (httpClient cfg (clients ns)), poll_request cfg ep code)]\<rparr>"
    have prog: "clock ns + pollInterval \<le> clock ?ns" using t(1) Suc.prems(1) by simp
    have small: "pollInterval + 5000000000 < 2 ^ 63" using t Suc.prems(1,4) by linarith
    have "clock ns + pollInterval \<le> deadline" using t Suc.prems(1) by linarith
    then have "pollInterval < int (Suc fuel) * pollInterval" using Suc.prems(3) by linarith
    with assms(1) have "0 < fuel" by (cases fuel) auto
    moreover have "deadline - clock ?ns < int fuel * pollInterval"
      using prog Suc.prems(3) by (simp add: algebra_simps)
    moreover have "deadline - clock ?ns + 5000000000 < 2 ^ 63" using prog Suc.prems(4) assms(1) by linarith
    ultimately have "pollForToken U E cfg ep code pollInterval deadline fuel (next_wait E pollInterval reply) ?ns \<noteq> None"
      for reply by (intro Suc.IH next_wait_ge assms(1) small)
    then show ?thesis using Some by (simp add: poll_simps)
  qed
qed

lemma poll_fuel_suffices:
  assumes "0 < pollInterval" "deadline - clock ns + 5000000000 < 2 ^ 63"
  shows "pollForToken U E cfg ep code pollInterval deadline (poll_fuel deadline pollInterval ns) pollInterval ns \<noteq> None"
proof (rule poll_returns)
  let ?q = "(deadline - clock ns) div pollInterval"
  have "deadline - clock ns < (?q + 1) * pollInterval"
    using assms(1) by (metis add.commute distrib_right less_add_same_cancel1 mult.commute mult_1 mult_div_mod_eq pos_mod_bound add_strict_left_mono)
  also have "\<dots> \<le> int (poll_fuel deadline pollInterval ns) * pollInterval"
    using assms(1) by (intro mult_right_mono) (auto simp: poll_fuel_def)
  finally show "deadline - clock ns < int (poll_fuel deadline pollInterval ns) * pollInterval" .
qed (use assms in \<open>auto simp: poll_fuel_def\<close>)

section \<open>The whole flow\<close>

lemma default_durations [simp]:
  "seconds DefaultAuthTimeoutSeconds = 120000000000"
  "seconds DefaultPollIntervalSeconds = 5000000000"
  "seconds DefaultRequestTimeoutSeconds = 10000000000"
  by (simp_all add: seconds_small DefaultAuthTimeoutSeconds_def DefaultPollIntervalSeconds_def
      DefaultRequestTimeoutSeconds_def)

lemma poll_interval_pos: "0 < poll_interval (with_defaults cfg) d"
  by (auto simp: poll_interval_def with_defaults_def)

lemma fetchDiscovery_clock: "fetchDiscoveryDocument E cfg ns = (r, ns') \<Longrightarrow> clock ns \<le> clock ns'"
  by (auto simp: fetchDiscoveryDocument_def do_request_parts Let_def
      split: if_splits http_reply.splits option.splits)

lemma startDevice_clock: "startDeviceAuthorization U E cfg ep ns = (r, ns') \<Longrightarrow> clock ns \<le> clock ns'"
  by (auto simp: startDeviceAuthorization_def do_request_parts Let_def
      split: if_splits http_reply.splits option.splits)

text \<open>
  C31. The device flow always comes back: for every behaviour of the identity provider (any
  replies, any delays, any interval it asks for, however large) polling stops at the deadline,
  as long as the timeout is five seconds below the largest 64-bit duration. Without a positive
  timeout the default of two minutes applies.
\<close>

theorem device_flow_returns:
  assumes "cfgAuthTimeout cfg + 5000000000 < 2 ^ 63"
  shows "AuthenticateDeviceFlow U E cfg has_output ns \<noteq> None"
proof -
  let ?cfg = "with_defaults (cfg\<lparr>cfgProvider := NormalizeProvider U (cfgProvider cfg)\<rparr>)"
  let ?deadline = "clock ns + cfgAuthTimeout ?cfg"
  have timeout: "cfgAuthTimeout ?cfg + 5000000000 < 2 ^ 63"
    using assms by (auto simp: with_defaults_def)
  obtain r1 ns1 where d: "fetchDiscoveryDocument E ?cfg ns = (r1, ns1)" by fastforce
  show ?thesis
  proof (cases r1)
    case (Inl e)
    with d show ?thesis by (simp add: AuthenticateDeviceFlow_def Let_def)
  next
    case (Inr doc)
    obtain r2 ns2 where s: "startDeviceAuthorization U E ?cfg (DeviceAuthorizationEndpoint doc) ns1 = (r2, ns2)"
      by fastforce
    show ?thesis
    proof (cases r2)
      case (Inl e)
      with d s \<open>r1 = Inr doc\<close> show ?thesis by (simp add: AuthenticateDeviceFlow_def Let_def)
    next
      case (Inr da)
      have "?deadline - clock ns2 + 5000000000 < 2 ^ 63"
        using fetchDiscovery_clock [OF d] startDevice_clock [OF s] timeout by linarith
      then have "pollForToken U E ?cfg (TokenEndpoint doc) (DeviceCode da) (poll_interval ?cfg da) ?deadline
          (poll_fuel ?deadline (poll_interval ?cfg da) ns2) (poll_interval ?cfg da) ns2 \<noteq> None"
        by (intro poll_fuel_suffices poll_interval_pos)
      with Inr d s \<open>r1 = Inr doc\<close> show ?thesis
        by (auto simp: AuthenticateDeviceFlow_def Let_def split: sum.splits option.splits)
    qed
  qed
qed

lemma poll_success:
  assumes "pollForToken U E cfg ep code pollInterval deadline fuel wait ns = Some (Inr i, ns')"
  shows "\<exists>k code' status body tok.
     trace ns' = trace ns @ replicate (Suc k) (fst (httpClient cfg (clients ns)), poll_request cfg ep code)
     \<and> (\<forall>j < k. keep_waiting E (httpDo E (length (trace ns) + j) (fst (httpClient cfg (clients ns))) (poll_request cfg ep code)))
     \<and> httpDo E (length (trace ns) + k) (fst (httpClient cfg (clients ns))) (poll_request cfg ep code) = Reply code' status body
     \<and> status_ok code' \<and> decodeToken E body = Some tok \<and> i = identityFromTokenResponse E tok"
  using assms
proof (induction fuel arbitrary: wait ns)
  case 0
  then show ?case by simp
next
  case (Suc fuel)
  let ?c = "fst (httpClient cfg (clients ns))" and ?r = "poll_request cfg ep code"
  let ?n = "length (trace ns)"
  let ?reply = "httpDo E ?n ?c ?r"
  obtain t where t: "wait_or_done E deadline wait ns = Some t"
    using Suc.prems by (auto simp: poll_simps split: option.splits)
  let ?ns = "\<lparr>clock = t + int (httpTime E ?n), clients = snd (httpClient cfg (clients ns)), trace = trace ns @ [(?c, ?r)]\<rparr>"
  show ?case
  proof (cases "keep_waiting E ?reply")
    case True
    with Suc.prems t have rec: "pollForToken U E cfg ep code pollInterval deadline fuel (next_wait E pollInterval ?reply) ?ns = Some (Inr i, ns')"
      by (auto simp: poll_simps split: if_splits)
    from Suc.IH [OF rec] obtain k code' status body tok where k:
      "trace ns' = trace ns @ replicate (Suc (Suc k)) (?c, ?r)"
      "\<forall>j < k. keep_waiting E (httpDo E (?n + Suc j) ?c ?r)"
      "httpDo E (?n + Suc k) ?c ?r = Reply code' status body"
      "status_ok code'" "decodeToken E body = Some tok" "i = identityFromTokenResponse E tok"
      by auto
    have "\<forall>j < Suc k. keep_waiting E (httpDo E (?n + j) ?c ?r)"
      using True k(2) by (auto simp: less_Suc_eq_0_disj)
    with k show ?thesis by (rule_tac exI [of _ "Suc k"]) auto
  next
    case False
    with Suc.prems t have "poll_result U E ?reply = Inr i \<and> ns' = ?ns"
      by (auto simp: poll_simps split: if_splits)
    then show ?thesis
      by (rule_tac exI [of _ 0]) (auto simp: poll_result_def split: http_reply.splits if_splits option.splits)
  qed
qed

lemma fetchDiscovery_success:
  assumes "fetchDiscoveryDocument E cfg ns = (Inr doc, ns')"
  shows "\<exists>req code status body.
     ns' = snd (do_request E cfg req ns) \<and> reqURL req = issuerURL cfg @ ''/.well-known/openid-configuration''
     \<and> httpDo E (length (trace ns)) (fst (httpClient cfg (clients ns))) req = Reply code status body
     \<and> status_ok code \<and> decodeDiscovery E body = Some doc"
  using assms
  by (auto simp: fetchDiscoveryDocument_def do_request_parts Let_def
      split: if_splits http_reply.splits option.splits)

lemma startDevice_success:
  assumes "startDeviceAuthorization U E cfg ep ns = (Inr da, ns')"
  shows "\<exists>req code status body.
     ns' = snd (do_request E cfg req ns) \<and> reqURL req = ep
     \<and> httpDo E (length (trace ns)) (fst (httpClient cfg (clients ns))) req = Reply code status body
     \<and> status_ok code \<and> decodeDevice E body = Some da"
  using assms
  by (auto simp: startDeviceAuthorization_def do_request_parts Let_def
      split: if_splits http_reply.splits option.splits)

lemma after_request [simp]:
  "length (trace (snd (do_request E cfg req ns))) = Suc (length (trace ns))"
  "trace (snd (do_request E cfg req ns)) = trace ns @ [(fst (httpClient cfg (clients ns)), req)]"
  "httpClient cfg (clients (snd (do_request E cfg req ns))) =
     (fst (httpClient cfg (clients ns)), clients (snd (do_request E cfg req ns)))"
  by (simp_all add: do_request_parts)

lemma flow_success_parts:
  assumes "AuthenticateDeviceFlow U E cfg has_output ns = Some (Inr i, ns', lines)"
  obtains doc ns1 da ns2 where
    "IsSupportedProvider U (NormalizeProvider U (cfgProvider cfg))"
    "fetchDiscoveryDocument E (with_defaults (cfg\<lparr>cfgProvider := NormalizeProvider U (cfgProvider cfg)\<rparr>)) ns = (Inr doc, ns1)"
    "startDeviceAuthorization U E (with_defaults (cfg\<lparr>cfgProvider := NormalizeProvider U (cfgProvider cfg)\<rparr>))
       (DeviceAuthorizationEndpoint doc) ns1 = (Inr da, ns2)"
    "pollForToken U E (with_defaults (cfg\<lparr>cfgProvider := NormalizeProvider U (cfgProvider cfg)\<rparr>))
       (TokenEndpoint doc) (DeviceCode da)
       (poll_interval (with_defaults (cfg\<lparr>cfgProvider := NormalizeProvider U (cfgProvider cfg)\<rparr>)) da)
       (clock ns + cfgAuthTimeout (with_defaults (cfg\<lparr>cfgProvider := NormalizeProvider U (cfgProvider cfg)\<rparr>)))
       (poll_fuel (clock ns + cfgAuthTimeout (with_defaults (cfg\<lparr>cfgProvider := NormalizeProvider U (cfgProvider cfg)\<rparr>)))
         (poll_interval (with_defaults (cfg\<lparr>cfgProvider := NormalizeProvider U (cfgProvider cfg)\<rparr>)) da) ns2)
       (poll_interval (with_defaults (cfg\<lparr>cfgProvider := NormalizeProvider U (cfgProvider cfg)\<rparr>)) da) ns2
     = Some (Inr i, ns')"
proof -
  let ?cfg = "with_defaults (cfg\<lparr>cfgProvider := NormalizeProvider U (cfgProvider cfg)\<rparr>)"
  have prov: "IsSupportedProvider U (NormalizeProvider U (cfgProvider cfg))"
    using assms by (simp add: AuthenticateDeviceFlow_def Let_def split: if_splits)
  note flow = assms [unfolded AuthenticateDeviceFlow_def Let_def]
  obtain r1 ns1 where d: "fetchDiscoveryDocument E ?cfg ns = (r1, ns1)" by fastforce
  obtain doc where doc: "r1 = Inr doc" using flow d by (cases r1) (simp_all add: prov)
  obtain r2 ns2 where s: "startDeviceAuthorization U E ?cfg (DeviceAuthorizationEndpoint doc) ns1 = (r2, ns2)"
    by fastforce
  obtain da where da: "r2 = Inr da" using flow d doc s by (cases r2) (simp_all add: prov)
  show thesis
    using that [OF prov d [unfolded doc] s [unfolded da]] flow d doc s da prov
    by (auto split: option.splits sum.splits)
qed

text \<open>
  C33. An SSO confirmation is earned. If the device flow succeeds, then it sent exactly this
  conversation, all of it through one HTTP client: a discovery request to the issuer, a device
  authorization request to the endpoint the discovery named, then polls of the discovered token
  endpoint with the device code that was issued. Each reply but the last told it to wait; the
  last one had a 2xx status and carried the token the identity is read from.
\<close>

theorem device_flow_success:
  assumes "AuthenticateDeviceFlow U E cfg has_output ns = Some (Inr i, ns', lines)"
  defines "cfg' \<equiv> with_defaults (cfg\<lparr>cfgProvider := NormalizeProvider U (cfgProvider cfg)\<rparr>)"
    and "n \<equiv> length (trace ns)"
  defines "client \<equiv> fst (httpClient cfg' (clients ns))"
  shows "IsSupportedProvider U (NormalizeProvider U (cfgProvider cfg))
    \<and> (\<exists>r0 c0 s0 b0 doc r1 c1 s1 b1 da k c2 s2 b2 tok.
         trace ns' = trace ns @ [(client, r0), (client, r1)]
           @ replicate (Suc k) (client, poll_request cfg' (TokenEndpoint doc) (DeviceCode da))
         \<and> reqURL r0 = issuerURL cfg' @ ''/.well-known/openid-configuration''
         \<and> httpDo E n client r0 = Reply c0 s0 b0 \<and> status_ok c0 \<and> decodeDiscovery E b0 = Some doc
         \<and> reqURL r1 = DeviceAuthorizationEndpoint doc
         \<and> httpDo E (n + 1) client r1 = Reply c1 s1 b1 \<and> status_ok c1 \<and> decodeDevice E b1 = Some da
         \<and> (\<forall>j < k. keep_waiting E (httpDo E (n + 2 + j) client
               (poll_request cfg' (TokenEndpoint doc) (DeviceCode da))))
         \<and> httpDo E (n + 2 + k) client (poll_request cfg' (TokenEndpoint doc) (DeviceCode da)) = Reply c2 s2 b2
         \<and> status_ok c2 \<and> decodeToken E b2 = Some tok \<and> i = identityFromTokenResponse E tok)"
proof -
  from assms(1) obtain doc ns1 da ns2 where
    prov: "IsSupportedProvider U (NormalizeProvider U (cfgProvider cfg))"
    and d: "fetchDiscoveryDocument E cfg' ns = (Inr doc, ns1)"
    and s: "startDeviceAuthorization U E cfg' (DeviceAuthorizationEndpoint doc) ns1 = (Inr da, ns2)"
    and p: "pollForToken U E cfg' (TokenEndpoint doc) (DeviceCode da) (poll_interval cfg' da)
        (clock ns + cfgAuthTimeout cfg') (poll_fuel (clock ns + cfgAuthTimeout cfg') (poll_interval cfg' da) ns2)
        (poll_interval cfg' da) ns2 = Some (Inr i, ns')"
    unfolding cfg'_def by (rule flow_success_parts)
  from fetchDiscovery_success [OF d] obtain r0 c0 s0 b0 where
    r0: "ns1 = snd (do_request E cfg' r0 ns)" "reqURL r0 = issuerURL cfg' @ ''/.well-known/openid-configuration''"
      "httpDo E n client r0 = Reply c0 s0 b0" "status_ok c0" "decodeDiscovery E b0 = Some doc"
    unfolding n_def client_def by blast
  from startDevice_success [OF s] r0(1) obtain r1 c1 s1 b1 where
    r1: "ns2 = snd (do_request E cfg' r1 ns1)" "reqURL r1 = DeviceAuthorizationEndpoint doc"
      "httpDo E (n + 1) client r1 = Reply c1 s1 b1" "status_ok c1" "decodeDevice E b1 = Some da"
    by (auto simp: n_def client_def)
  have c: "fst (httpClient cfg' (clients ns2)) = client" "length (trace ns2) = n + 2"
    "trace ns2 = trace ns @ [(client, r0), (client, r1)]"
    using r0(1) r1(1) by (simp_all add: client_def n_def)
  from poll_success [OF p] obtain k c2 s2 b2 tok where
    k: "trace ns' = trace ns2 @ replicate (Suc k) (client, poll_request cfg' (TokenEndpoint doc) (DeviceCode da))"
      "\<forall>j < k. keep_waiting E (httpDo E (n + 2 + j) client (poll_request cfg' (TokenEndpoint doc) (DeviceCode da)))"
      "httpDo E (n + 2 + k) client (poll_request cfg' (TokenEndpoint doc) (DeviceCode da)) = Reply c2 s2 b2"
      "status_ok c2" "decodeToken E b2 = Some tok" "i = identityFromTokenResponse E tok"
    using c by (metis (no_types, lifting))
  have "trace ns' = trace ns @ [(client, r0), (client, r1)]
      @ replicate (Suc k) (client, poll_request cfg' (TokenEndpoint doc) (DeviceCode da))"
    using k(1) c(3) by simp
  with prov r0(2-) r1(2-) k(2-) show ?thesis by blast
qed

section \<open>A concrete provider\<close>

text \<open>
  A provider that answers the first poll with \<open>slow_down\<close>, the next two with
  \<open>authorization_pending\<close> and then grants a token for alice.
\<close>

definition sample_env :: sso_env where
  "sample_env = \<lparr>urlOk = (\<lambda>_. True),
     httpDo = (\<lambda>n _ _. if n = 2 then Reply 400 [] ''slow_down''
        else if n = 3 \<or> n = 4 then Reply 400 [] ''authorization_pending'' else Reply 200 [] ''ok''),
     httpTime = (\<lambda>_. 0), doneFirst = (\<lambda>_. False),
     decodeDiscovery = (\<lambda>_. Some \<lparr>DeviceAuthorizationEndpoint = ''https://sso/device'', TokenEndpoint = ''https://sso/token''\<rparr>),
     decodeDevice = (\<lambda>_. Some \<lparr>DeviceCode = ''d'', UserCode = ''u'', VerificationURI = ''v'',
        VerificationURIComplete = ''w'', ExpiresIn = 600, Interval = 5\<rparr>),
     decodeTokenError = (\<lambda>b. \<lparr>ErrorCode = b, ErrorDescription = []\<rparr>),
     decodeToken = (\<lambda>_. Some \<lparr>AccessToken = [], IDToken = ''h.p.s'', TokenType = ''Bearer''\<rparr>),
     decodeClaims = (\<lambda>_. Some [(''preferred_username'', StringClaim ''alice'')]),
     showDuration = (\<lambda>_. ''2m0s'')\<rparr>"

definition sample_config :: sso_config where
  "sample_config = \<lparr>cfgEnabled = True, cfgProvider = [], cfgBaseURL = ''https://sso/'', cfgRealm = ''prod'',
     cfgClientID = [], cfgClientSecret = [], cfgScope = [], cfgAuthTimeout = 0, cfgPollInterval = 0,
     cfgRequestTimeout = 0, cfgEnforceUserMatch = True, cfgInsecureSkipVerify = False\<rparr>"

definition no_traffic :: net_state where
  "no_traffic = \<lparr>clock = 0, clients = [], trace = []\<rparr>"

definition sample_flow :: "((sso_error + identity) \<times> net_state \<times> string list) option" where
  "sample_flow = AuthenticateDeviceFlow ascii_tables sample_env sample_config False no_traffic"

lemma sample_flow_result: "map_option fst sample_flow =
    Some (Inr \<lparr>Subject = [], PreferredUsername = ''alice'', Email = []\<rparr>)"
  by code_simp

text \<open>
  The polls are sent 5, 15, 20 and 25 seconds into the flow: the five seconds that
  \<open>slow_down\<close> adds are gone after the next reply, although the provider never took them back.
\<close>

lemma slow_down_forgotten:
  "map_option (\<lambda>(r, ns, out). (clock ns, length (trace ns))) sample_flow = Some (25000000000, 6)"
  by code_simp

lemma device_flow_returns_witness:
  "AuthenticateDeviceFlow ascii_tables sample_env (sample_config\<lparr>cfgAuthTimeout := 300000000000\<rparr>) True no_traffic \<noteq> None"
  by (rule device_flow_returns) simp

lemma device_flow_success_witness:
  "IsSupportedProvider ascii_tables (NormalizeProvider ascii_tables [])
   \<and> (\<exists>tok. identityFromTokenResponse sample_env tok = \<lparr>Subject = [], PreferredUsername = ''alice'', Email = []\<rparr>)"
proof -
  from sample_flow_result obtain ns' lines where
    "AuthenticateDeviceFlow ascii_tables sample_env sample_config False no_traffic
       = Some (Inr \<lparr>Subject = [], PreferredUsername = ''alice'', Email = []\<rparr>, ns', lines)"
    by (auto simp: sample_flow_def)
  note run = device_flow_success [OF this]
  from run have "IsSupportedProvider ascii_tables (NormalizeProvider ascii_tables (cfgProvider sample_config))" ..
  moreover from run have "\<exists>tok. \<lparr>Subject = [], PreferredUsername = ''alice'', Email = []\<rparr> = identityFromTokenResponse sample_env tok"
    by blast
  ultimately show ?thesis by (simp add: sample_config_def eq_commute)
qed

end
