(* ===== verification/Go_Net.thy ===== *)
theory Go_Net
  imports Go_Strings
begin

text \<open>
  The part of Go's package \<open>net\<close> that the proxy calls: \<open>ParseIP\<close> (as the test whether
  it returns an address), \<open>SplitHostPort\<close> and \<open>JoinHostPort\<close>.
\<close>

section \<open>IP addresses\<close>

definition is_hex :: "char \<Rightarrow> bool" where
  "is_hex c \<longleftrightarrow> is_digit c \<or> (0x61 \<le> byte c \<and> byte c \<le> 0x66) \<or> (0x41 \<le> byte c \<and> byte c \<le> 0x46)"

text \<open>A field of a dotted quad: decimal digits, no leading zero, at most 255.\<close>

definition is_octet :: "string \<Rightarrow> bool" where
  "is_octet f \<longleftrightarrow> f \<noteq> [] \<and> list_all is_digit f \<and> (1 < length f \<longrightarrow> hd f \<noteq> CHR ''0'')
     \<and> decimal f \<le> 255"

definition is_ipv4 :: "string \<Rightarrow> bool" where
  "is_ipv4 s = (let fs = Split s (CHR ''.'') in length fs = 4 \<and> list_all is_octet fs)"

text \<open>
  The loop of the IPv6 parser: \<open>i\<close> bytes of the address are filled, \<open>ell\<close> tells whether a
  double colon was seen. A field has one to four hexadecimal digits; a dotted quad may replace
  the last two fields; a double colon must stand for at least one field.
\<close>

function ipv6_groups :: "nat \<Rightarrow> bool \<Rightarrow> string \<Rightarrow> bool" where
  "ipv6_groups i ell s =
     (if 16 \<le> i then s = [] \<and> \<not> ell
      else
        (let h = takeWhile is_hex s; rest = dropWhile is_hex s in
         if h = [] \<or> 4 < length h then False
         else (case rest of
             [] \<Rightarrow> (if i + 2 < 16 then ell else \<not> ell)
           | c # r \<Rightarrow>
               if c = CHR ''.'' then
                 (if \<not> ell \<and> i \<noteq> 12 then False
                  else if 16 < i + 4 then False
                  else is_ipv4 s \<and> (if i + 4 < 16 then ell else \<not> ell))
               else if c \<noteq> CHR '':'' then False
               else (case r of
                   [] \<Rightarrow> False
                 | d # r' \<Rightarrow>
                     if d = CHR '':'' then
                       (if ell then False
                        else if r' = [] then i + 2 < 16
                        else ipv6_groups (i + 2) True r')
                     else ipv6_groups (i + 2) ell r))))"
  by pat_completeness auto
termination by (relation "measure (\<lambda>(i, ell, s). 16 - i)") auto

declare ipv6_groups.simps [simp del]

text \<open>A zone is parsed by \<open>netip\<close> and then refused by \<open>ParseIP\<close>.\<close>

definition is_ipv6 :: "string \<Rightarrow> bool" where
  "is_ipv6 s =
     (if CHR ''%'' \<in> set s then False
      else if HasPrefix s ''::'' then drop 2 s = [] \<or> ipv6_groups 0 True (drop 2 s)
      else ipv6_groups 0 False s)"

text \<open>\<open>net.ParseIP(s) != nil\<close>: the first dot, colon or percent sign selects the parser.\<close>

definition ParseIP :: "string \<Rightarrow> bool" where
  "ParseIP s =
     (case dropWhile (\<lambda>c. c \<notin> set ''.:%'') s of
        [] \<Rightarrow> False
      | c # _ \<Rightarrow> if c = CHR ''.'' then is_ipv4 s else if c = CHR '':'' then is_ipv6 s else False)"

section \<open>Host and port\<close>

text \<open>
  \<open>net.SplitHostPort\<close>, \<open>None\<close> for each of its errors. The port starts after the last
  colon; in the bracketed form the first closing bracket must stand right before it.
\<close>

definition SplitHostPort :: "string \<Rightarrow> (string \<times> string) option" where
  "SplitHostPort hp =
     (if CHR '':'' \<notin> set hp then None
      else if HasPrefix hp ''['' then
        (let host = takeWhile (\<lambda>c. c \<noteq> CHR '']'') (tl hp);
             rest = dropWhile (\<lambda>c. c \<noteq> CHR '']'') (tl hp)
         in case rest of
              b # c # port \<Rightarrow>
                if c = CHR '':'' \<and> CHR '':'' \<notin> set port \<and> CHR ''['' \<notin> set (tl hp)
                   \<and> CHR '']'' \<notin> set port then Some (host, port) else None
            | _ \<Rightarrow> None)
      else
        (let host = rev (tl (dropWhile (\<lambda>c. c \<noteq> CHR '':'') (rev hp)));
             port = rev (takeWhile (\<lambda>c. c \<noteq> CHR '':'') (rev hp))
         in if CHR '':'' \<in> set host \<or> CHR ''['' \<in> set hp \<or> CHR '']'' \<in> set hp then None
            else Some (host, port)))"

definition JoinHostPort :: "string \<Rightarrow> string \<Rightarrow> string" where
  "JoinHostPort host port =
     (if CHR '':'' \<in> set host then ''['' @ host @ '']:'' @ port else host @ '':'' @ port)"

section \<open>Facts\<close>

lemma is_ipv4_chars: "is_ipv4 s \<Longrightarrow> c \<in> set s \<Longrightarrow> is_digit c \<or> c = CHR ''.''"
proof -
  assume ip: "is_ipv4 s" and c: "c \<in> set s"
  have join: "set s \<subseteq> {CHR ''.''} \<union> (\<Union>p \<in> set (Split s (CHR ''.'')). set p)"
  proof (induction s)
    case (Cons a s)
    then show ?case by (cases "Split s (CHR ''.'')") (auto simp: Split_nonempty)
  qed simp
  with c consider "c = CHR ''.''" | p where "p \<in> set (Split s (CHR ''.''))" "c \<in> set p" by auto
  then show ?thesis
  proof cases
    case 2
    with ip show ?thesis by (auto simp: is_ipv4_def is_octet_def list_all_iff Let_def)
  qed simp
qed

lemma ipv6_groups_chars:
  "ipv6_groups i ell s \<Longrightarrow> c \<in> set s \<Longrightarrow> is_hex c \<or> c = CHR '':'' \<or> c = CHR ''.''"
proof (induction i ell s rule: ipv6_groups.induct)
  case (1 i ell s)
  let ?h = "takeWhile is_hex s" and ?rest = "dropWhile is_hex s"
  have s: "s = ?h @ ?rest" by simp
  have h: "\<forall>d \<in> set ?h. is_hex d" by (auto dest: set_takeWhileD)
  show ?case
  proof (cases "16 \<le> i")
    case True
    with "1.prems" show ?thesis by (simp add: ipv6_groups.simps [of i ell s])
  next
    case False
    note unf = "1.prems"(1) [unfolded ipv6_groups.simps [of i ell s] Let_def]
    have hne: "\<not> (?h = [] \<or> 4 < length ?h)" using unf False by (auto split: if_splits)
    from "1.prems"(2) s consider "c \<in> set ?h" | "c \<in> set ?rest" by (metis Un_iff set_append)
    then show ?thesis
    proof cases
      case 1
      with h show ?thesis by blast
    next
      case 2
      then obtain e r where rest: "?rest = e # r" by (cases ?rest) auto
      show ?thesis
      proof (cases "e = CHR ''.''")
        case True
        with unf False hne rest have "is_ipv4 s" by (auto split: if_splits)
        with is_ipv4_chars [OF _ "1.prems"(2)] show ?thesis by (auto simp: is_hex_def)
      next
        case dot: False
        with unf False hne rest have colon: "e = CHR '':''" by (auto split: if_splits)
        with unf False hne rest obtain d r' where r: "r = d # r'" by (cases r) auto
        show ?thesis
        proof (cases "d = CHR '':''")
          case True
          with unf False hne rest r colon have "r' = [] \<or> ipv6_groups (i + 2) True r'" "\<not> ell"
            by (auto split: if_splits)
          with "1.IH"(1) [OF False refl refl hne rest dot _ r True] colon True 2 rest r
          show ?thesis by (cases "r' = []") auto
        next
          case nd: False
          with unf False hne rest r colon have "ipv6_groups (i + 2) ell r" by auto
          with "1.IH"(2) [OF False refl refl hne rest dot _ r nd] colon 2 rest r
          show ?thesis by auto
        qed
      qed
    qed
  qed
qed

lemma ParseIP_chars [safety_facts]:
  assumes "ParseIP s" and "c \<in> set s"
  shows "is_hex c \<or> c = CHR '':'' \<or> c = CHR ''.''"
proof -
  from assms(1) have "is_ipv4 s \<or> is_ipv6 s" by (auto simp: ParseIP_def split: list.splits if_splits)
  then show ?thesis
  proof
    assume "is_ipv4 s"
    from is_ipv4_chars [OF this assms(2)] show ?thesis by (auto simp: is_hex_def)
  next
    assume v6: "is_ipv6 s"
    show ?thesis
    proof (cases "HasPrefix s ''::''")
      case True
      then have "s = '':'' @ '':'' @ drop 2 s" by (metis HasPrefix_def append_Cons append_Nil append_take_drop_id length_Cons list.size(3) numeral_2_eq_2)
      with assms(2) have "c = CHR '':'' \<or> c \<in> set (drop 2 s)" by (metis Un_iff empty_iff list.set(1) set_ConsD set_append)
      with v6 True show ?thesis using ipv6_groups_chars by (auto simp: is_ipv6_def split: if_splits)
    next
      case False
      with v6 have "ipv6_groups 0 False s" by (auto simp: is_ipv6_def split: if_splits)
      from ipv6_groups_chars [OF this assms(2)] show ?thesis .
    qed
  qed
qed

lemma SplitHostPort_plain:
  assumes "CHR '':'' \<notin> set h" "CHR '':'' \<notin> set p" "\<not> HasPrefix h ''[''" "h \<noteq> []"
    "CHR ''['' \<notin> set h" "CHR '']'' \<notin> set h" "CHR ''['' \<notin> set p" "CHR '']'' \<notin> set p"
  shows "SplitHostPort (h @ '':'' @ p) = Some (h, p)"
proof -
  have np: "\<not> HasPrefix (h @ '':'' @ p) ''[''"
    using assms(3,4) by (cases h) auto
  have rv: "rev (h @ '':'' @ p) = rev p @ CHR '':'' # rev h" by simp
  have "\<forall>c \<in> set (rev p). c \<noteq> CHR '':''" using assms(2) by auto
  then have "takeWhile (\<lambda>c. c \<noteq> CHR '':'') (rev (h @ '':'' @ p)) = rev p"
    "dropWhile (\<lambda>c. c \<noteq> CHR '':'') (rev (h @ '':'' @ p)) = CHR '':'' # rev h"
    unfolding rv by simp_all
  with np assms show ?thesis by (simp add: SplitHostPort_def Let_def)
qed

lemma SplitHostPort_bracket:
  assumes "CHR ''['' \<notin> set h" "CHR '']'' \<notin> set h"
    "CHR '':'' \<notin> set p" "CHR ''['' \<notin> set p" "CHR '']'' \<notin> set p"
  shows "SplitHostPort (''['' @ h @ '']:'' @ p) = Some (h, p)"
proof -
  have "\<forall>c \<in> set h. c \<noteq> CHR '']''" using assms(2) by auto
  then have "takeWhile (\<lambda>c. c \<noteq> CHR '']'') (h @ '']:'' @ p) = h"
    "dropWhile (\<lambda>c. c \<noteq> CHR '']'') (h @ '']:'' @ p) = '']:'' @ p" by simp_all
  with assms show ?thesis by (simp add: SplitHostPort_def Let_def)
qed

end
