(* ===== verification/Target.thy ===== *)
theory Target
  imports Go_Net
begin

text \<open>
  Target addresses: the validation, parsing and formatting functions at the end of
  \<open>internal/server/server.go\<close>. The strings they accept come from the client (the
  \<open>LC_SSH_SERVER\<close> variable, an \<open>exec\<close> command line) or from the configuration.
\<close>

section \<open>Operations\<close>

datatype target_error =
    InvalidFormat | SurroundingWhitespace | UnsafeCharacters
  | InvalidUser | InvalidHost | InvalidPort | InvalidSessionUser

definition isSafeTargetUser :: "unicode \<Rightarrow> string \<Rightarrow> bool" where
  "isSafeTargetUser U user \<longleftrightarrow>
     user \<noteq> [] \<and> (\<forall>r \<in> set (runes user). IsLetter U r \<or> IsDigit U r \<or> ContainsRune ''._-+'' r)"

definition isSafeTargetHost :: "unicode \<Rightarrow> string \<Rightarrow> bool" where
  "isSafeTargetHost U host \<longleftrightarrow>
     host \<noteq> [] \<and>
     (ParseIP host \<or>
      (\<forall>r \<in> set (runes host). IsLetter U r \<or> IsDigit U r \<or> ContainsRune ''._-'' r))"

definition isSafeTargetPort :: "unicode \<Rightarrow> string \<Rightarrow> bool" where
  "isSafeTargetPort U port \<longleftrightarrow>
     port \<noteq> [] \<and> (\<forall>r \<in> set (runes port). IsDigit U r) \<and>
     (case Atoi port of None \<Rightarrow> False | Some value \<Rightarrow> 1 \<le> value \<and> value \<le> 65535)"

text \<open>The argument of \<open>strings.ContainsAny\<close>: white space, quotes, shell metacharacters.\<close>

definition unsafe_chars :: string where
  "unsafe_chars = [CHR '' '', CHR 0x09, CHR 0x0D, CHR 0x0A, CHR 0x22, CHR 0x27, CHR 0x60]
     @ '';&|<>'' @ [CHR 0x5C] @ ''(){}''"

text \<open>The optional \<open>user@\<close> prefix.\<close>

definition split_user :: "unicode \<Rightarrow> string \<Rightarrow> target_error + (string \<times> string)" where
  "split_user U targetAddr =
     (case Cut targetAddr (CHR ''@'') of
        None \<Rightarrow> Inr ([], targetAddr)
      | Some (parsedUser, parsedHostPort) \<Rightarrow>
          if parsedUser = [] \<or> parsedHostPort = [] then Inl InvalidFormat
          else if \<not> isSafeTargetUser U parsedUser then Inl InvalidUser
          else Inr (parsedUser, parsedHostPort))"

text \<open>The host and the optional port, with \<open>22\<close> where there is none.\<close>

definition split_host_port :: "string \<Rightarrow> string \<times> string" where
  "split_host_port hostPort =
     (if HasPrefix hostPort ''['' then
        (case SplitHostPort hostPort of
           Some (parsedHost, parsedPort) \<Rightarrow> (parsedHost, parsedPort)
         | None \<Rightarrow> (TrimSuffix (TrimPrefix hostPort ''['') '']'', ''22''))
      else if CountByte hostPort (CHR '':'') = 1 then
        (case SplitHostPort hostPort of
           Some (parsedHost, parsedPort) \<Rightarrow> (parsedHost, parsedPort)
         | None \<Rightarrow> (case Cut hostPort (CHR '':'') of
               Some (parsedHost, parsedPort) \<Rightarrow> (parsedHost, parsedPort)
             | None \<Rightarrow> (hostPort, ''22'')))
      else (hostPort, ''22''))"

definition splitTargetAddress :: "unicode \<Rightarrow> string \<Rightarrow> target_error + (string \<times> string \<times> string)" where
  "splitTargetAddress U targetAddr =
     (if TrimSpace targetAddr = [] then Inl InvalidFormat
      else if TrimSpace targetAddr \<noteq> targetAddr then Inl SurroundingWhitespace
      else if ContainsAny targetAddr unsafe_chars then Inl UnsafeCharacters
      else try_bind (split_user U targetAddr) (\<lambda>(targetUser, hostPort).
        let (host, port) = split_host_port hostPort in
        if host = [] then Inl InvalidFormat
        else if \<not> isSafeTargetHost U host then Inl InvalidHost
        else if \<not> isSafeTargetPort U port then Inl InvalidPort
        else Inr (targetUser, host, port)))"

definition ValidateTargetAddress :: "unicode \<Rightarrow> string \<Rightarrow> target_error option" where
  "ValidateTargetAddress U target =
     (case splitTargetAddress U target of Inl e \<Rightarrow> Some e | Inr _ \<Rightarrow> None)"

definition resolveTargetAddress ::
  "unicode \<Rightarrow> string \<Rightarrow> string \<Rightarrow> target_error + (string \<times> string \<times> string)" where
  "resolveTargetAddress U targetAddr sessionUser =
     try_bind (splitTargetAddress U targetAddr) (\<lambda>(targetUser, host, port).
       if targetUser = [] then
         (let sessionUser = TrimSpace sessionUser in
          if \<not> isSafeTargetUser U sessionUser then Inl InvalidSessionUser
          else Inr (sessionUser, host, port))
       else Inr (targetUser, host, port))"

definition formatTargetAddress :: "string \<Rightarrow> string \<Rightarrow> string \<Rightarrow> string" where
  "formatTargetAddress user host port =
     (if user = [] \<or> host = [] then []
      else if port = [] then user @ ''@'' @ host
      else user @ ''@'' @ JoinHostPort host port)"

text \<open>
  The loop of \<open>parseTargetFromCommand\<close> from some part on. A \<open>-l\<close> or \<open>-u\<close> that has
  exactly one part after it falls through to the next iteration.
\<close>

fun target_scan :: "string list \<Rightarrow> string" where
  "target_scan [] = []"
| "target_scan (part # rest) =
     (if (part = ''-l'' \<or> part = ''-u'') \<and> rest \<noteq> [] then
        (case rest of
           user # host # _ \<Rightarrow> user @ ''@'' @ host
         | _ \<Rightarrow> target_scan rest)
      else if HasPrefix part ''-'' \<or> part = ''ssh'' then target_scan rest
      else part)"

definition parseTargetFromCommand :: "string \<Rightarrow> string" where
  "parseTargetFromCommand command =
     (let parts = Fields command in
      if parts = [] \<or> hd parts \<noteq> ''ssh'' then [] else target_scan parts)"

section \<open>What validated components look like\<close>

text \<open>The ASCII bytes a validated user, host or port may hold.\<close>

definition plain_byte :: "char \<Rightarrow> bool" where
  "plain_byte c \<longleftrightarrow>
     (0x41 \<le> byte c \<and> byte c \<le> 0x5A) \<or> (0x61 \<le> byte c \<and> byte c \<le> 0x7A) \<or> is_digit c
     \<or> c \<in> set ''._-+:''"

definition plain_text :: "string \<Rightarrow> bool" where
  "plain_text s \<longleftrightarrow> (\<forall>c \<in> set s. byte c < 0x80 \<longrightarrow> plain_byte c)"

lemma ascii_letter_digit:
  "byte c < 0x80 \<Longrightarrow> IsLetter U (byte c) \<or> IsDigit U (byte c) \<Longrightarrow> plain_byte c \<and> c \<notin> set ''._-+:[]@''"
  by (auto simp: IsLetter_def IsDigit_def plain_byte_def is_digit_def byte_def split: if_splits)

lemma safe_user_byte [safety_facts]:
  assumes "isSafeTargetUser U user" "c \<in> set user" "byte c < 0x80"
  shows "plain_byte c \<and> c \<notin> set '':[]@''"
  using assms ascii_byte_in_runes [OF assms(2,3)] ascii_letter_digit [OF assms(3), of U]
  by (auto simp: isSafeTargetUser_def ContainsRune_iff plain_byte_def)

lemma is_hex_plain: "is_hex c \<Longrightarrow> plain_byte c \<and> c \<notin> set ''[]@''"
  by (auto simp: is_hex_def plain_byte_def is_digit_def byte_def)

lemma safe_host_byte [safety_facts]:
  assumes "isSafeTargetHost U host" "c \<in> set host" "byte c < 0x80"
  shows "plain_byte c \<and> c \<notin> set ''[]@''"
proof (cases "ParseIP host")
  case True
  from ParseIP_chars [OF True assms(2)] is_hex_plain [of c] show ?thesis
    by (auto simp: plain_byte_def)
next
  case False
  with assms ascii_byte_in_runes [OF assms(2,3)] ascii_letter_digit [OF assms(3), of U] show ?thesis
    by (auto simp: isSafeTargetHost_def ContainsRune_iff plain_byte_def)
qed

lemma safe_port_digits [safety_facts]:
  assumes "isSafeTargetPort U port"
  shows "port \<noteq> []" and "list_all is_digit port"
proof -
  from assms obtain v where ne: "port \<noteq> []" and at: "Atoi port = Some v"
    and runes: "\<forall>r \<in> set (runes port). IsDigit U r"
    by (auto simp: isSafeTargetPort_def split: option.splits)
  obtain c cs where port: "port = c # cs" using ne by (cases port) auto
  have nosign: "c \<noteq> d" if "byte d < 0x30" for d
  proof
    assume "c = d"
    with that have "byte c < 0x80" by simp
    with runes port ascii_byte_in_runes [of c port] have "IsDigit U (byte c)" by simp
    with \<open>c = d\<close> that show False by (simp add: IsDigit_def)
  qed
  from nosign [of "CHR ''-''"] nosign [of "CHR ''+''"]
  have "c \<noteq> CHR ''-''" "c \<noteq> CHR ''+''" by (simp_all add: byte_def)
  with at port show "list_all is_digit port" by (simp add: Atoi_def Let_def split: if_splits)
  show "port \<noteq> []" by fact
qed

lemma safe_port_byte [safety_facts]:
  "isSafeTargetPort U port \<Longrightarrow> c \<in> set port \<Longrightarrow> byte c < 0x80 \<and> plain_byte c \<and> c \<notin> set '':[]@''"
  using safe_port_digits [of U port]
  by (auto simp: list_all_iff is_digit_def plain_byte_def byte_def)

lemma plain_not_unsafe: "plain_byte c \<Longrightarrow> c \<notin> set unsafe_chars"
  by (auto simp: plain_byte_def unsafe_chars_def is_digit_def byte_def)

lemma unsafe_chars_ascii: "c \<in> set unsafe_chars \<Longrightarrow> byte c < 0x80"
  by (auto simp: unsafe_chars_def byte_def)

section \<open>Correctness of the validation\<close>

lemma split_user_safe: "split_user U t = Inr (u, hp) \<Longrightarrow> u = [] \<or> isSafeTargetUser U u"
  by (auto simp: split_user_def split: option.splits if_splits)

lemma splitTargetAddress_InrD:
  assumes "splitTargetAddress U t = Inr (u, h, p)"
  shows "u = [] \<or> isSafeTargetUser U u" and "isSafeTargetHost U h" and "isSafeTargetPort U p"
    and "TrimSpace t = t" and "t \<noteq> []" and "\<not> ContainsAny t unsafe_chars"
proof -
  from assms obtain hp where "split_user U t = Inr (u, hp)" "isSafeTargetHost U h"
    "isSafeTargetPort U p" "TrimSpace t = t" "t \<noteq> []" "\<not> ContainsAny t unsafe_chars"
    by (auto simp: splitTargetAddress_def try_bind_eq_Inr Let_def case_prod_unfold split: if_splits)
  with split_user_safe [of U t u hp] show "u = [] \<or> isSafeTargetUser U u" "isSafeTargetHost U h"
    "isSafeTargetPort U p" "TrimSpace t = t" "t \<noteq> []" "\<not> ContainsAny t unsafe_chars" by auto
qed

lemma safe_plain_text [safety_facts]:
  "isSafeTargetUser U s \<Longrightarrow> plain_text s" "isSafeTargetHost U s \<Longrightarrow> plain_text s"
  "isSafeTargetPort U s \<Longrightarrow> plain_text s"
  using safe_user_byte [of U s] safe_host_byte [of U s] safe_port_byte [of U s]
  by (auto simp: plain_text_def)

text \<open>
  C10. Every address the proxy accepts splits into parts that are free of shell metacharacters:
  the user is absent or passes \<open>isSafeTargetUser\<close>, host and port pass their checks, and the
  only ASCII bytes in any part are letters, digits and the six characters \<open>._-+:\<close>.
\<close>

theorem split_target_safe:
  assumes "splitTargetAddress U t = Inr (u, h, p)"
  shows "(u = [] \<or> isSafeTargetUser U u) \<and> isSafeTargetHost U h \<and> isSafeTargetPort U p
         \<and> plain_text (u @ h @ p)"
  using splitTargetAddress_InrD(1-3) [OF assms] safe_plain_text
  by (auto simp: plain_text_def)

lemma split_target_safe_witness:
  "isSafeTargetUser ascii_tables ''alice'' \<and> isSafeTargetHost ascii_tables ''2001:db8::1''
    \<and> isSafeTargetPort ascii_tables ''2200'' \<and> plain_text (''alice'' @ ''2001:db8::1'' @ ''2200'')"
proof -
  have "splitTargetAddress ascii_tables ''alice@[2001:db8::1]:2200'' = Inr (''alice'', ''2001:db8::1'', ''2200'')"
    by code_simp
  from split_target_safe [OF this] show ?thesis by simp
qed

section \<open>Formatting and parsing again\<close>

lemma hd_runes_safe_user:
  assumes "unicode_ok U" "isSafeTargetUser U u"
  shows "\<not> IsSpace (hd (runes u))"
proof
  assume sp: "IsSpace (hd (runes u))"
  have "hd (runes u) \<in> set (runes u)" using assms(2) by (simp add: isSafeTargetUser_def)
  with assms(2) have "IsLetter U (hd (runes u)) \<or> IsDigit U (hd (runes u)) \<or> ContainsRune ''._-+'' (hd (runes u))"
    by (auto simp: isSafeTargetUser_def)
  with space_not_letter_digit [OF assms(1) sp] have "ContainsRune ''._-+'' (hd (runes u))" by simp
  with sp show False by (auto simp: ContainsRune_def byte_def IsSpace_def)
qed

lemma TrimSpace_user_at:
  assumes U: "unicode_ok U" and u: "isSafeTargetUser U u" and p: "isSafeTargetPort U p"
  shows "TrimSpace (u @ CHR ''@'' # mid @ p) = u @ CHR ''@'' # mid @ p"
proof -
  obtain p' d where p': "p = p' @ [d]" using safe_port_digits(1) [OF p] by (cases p rule: rev_cases) auto
  then have d: "is_digit d" using safe_port_digits(2) [OF p] by simp
  have une: "runes u \<noteq> []" using u by (simp add: isSafeTargetUser_def)
  have at: "byte CHR ''@'' < 0x80" by (simp add: byte_def)
  have "runes (u @ CHR ''@'' # mid @ p) = runes u @ byte CHR ''@'' # runes (mid @ p)"
    by (rule runes_ascii_split [OF at])
  then have h: "hd (runes (u @ CHR ''@'' # mid @ p)) = hd (runes u)" using une by simp
  have "byte d < 0x80" using d by (simp add: is_digit_def)
  from runes_ascii_split [OF this, of "u @ CHR ''@'' # mid @ p'" "[]"]
  have "runes (u @ CHR ''@'' # mid @ p) = runes (u @ CHR ''@'' # mid @ p') @ [byte d]"
    by (simp add: p')
  then have l: "last (runes (u @ CHR ''@'' # mid @ p)) = byte d" by simp
  show ?thesis
  proof (rule TrimSpace_id)
    show "\<not> IsSpace (hd (runes (u @ CHR ''@'' # mid @ p)))"
      unfolding h by (rule hd_runes_safe_user [OF U u])
    show "\<not> IsSpace (last (runes (u @ CHR ''@'' # mid @ p)))"
      unfolding l using d by (auto simp: IsSpace_def is_digit_def)
  qed
qed

lemma safe_no_unsafe:
  "plain_text s \<Longrightarrow> c \<in> set s \<Longrightarrow> c \<notin> set unsafe_chars"
  using plain_not_unsafe unsafe_chars_ascii by (auto simp: plain_text_def)

lemma split_host_port_format:
  assumes h: "isSafeTargetHost U h" and p: "isSafeTargetPort U p"
  shows "split_host_port (JoinHostPort h p) = (h, p)"
proof -
  have br: "CHR ''['' \<notin> set h" "CHR '']'' \<notin> set h"
    using safe_host_byte [OF h, of "CHR ''[''"] safe_host_byte [OF h, of "CHR '']''"]
    by (auto simp: byte_def)
  have pp: "CHR '':'' \<notin> set p" "CHR ''['' \<notin> set p" "CHR '']'' \<notin> set p"
    using safe_port_byte [OF p] by auto
  have hne: "h \<noteq> []" using h by (simp add: isSafeTargetHost_def)
  show ?thesis
  proof (cases "CHR '':'' \<in> set h")
    case True
    with SplitHostPort_bracket [OF br pp] show ?thesis
      by (simp add: split_host_port_def JoinHostPort_def)
  next
    case False
    have np: "\<not> HasPrefix h ''[''" "\<not> HasPrefix (h @ CHR '':'' # p) ''[''" using br hne by (cases h; auto)+
    have cnt: "CountByte (h @ CHR '':'' # p) CHR '':'' = 1"
      using False pp by (auto simp: CountByte_def filter_empty_conv)
    from SplitHostPort_plain [OF False pp(1) np(1) hne br pp(2,3)] np False cnt show ?thesis
      by (simp add: split_host_port_def JoinHostPort_def)
  qed
qed

lemma split_format:
  assumes U: "unicode_ok U"
    and u: "isSafeTargetUser U u" and h: "isSafeTargetHost U h" and p: "isSafeTargetPort U p"
  shows "splitTargetAddress U (formatTargetAddress u h p) = Inr (u, h, p)"
proof -
  let ?t = "u @ CHR ''@'' # JoinHostPort h p"
  have ne: "u \<noteq> []" "h \<noteq> []" "p \<noteq> []"
    using u h safe_port_digits(1) [OF p] by (auto simp: isSafeTargetUser_def isSafeTargetHost_def)
  obtain mid where mid: "JoinHostPort h p = mid @ p"
  proof -
    have "JoinHostPort h p = (if CHR '':'' \<in> set h then ''['' @ h @ '']:'' else h @ '':'') @ p"
      by (simp add: JoinHostPort_def)
    then show ?thesis by (rule that)
  qed
  have trim: "TrimSpace ?t = ?t" unfolding mid by (rule TrimSpace_user_at [OF U u p])
  have brackets: "c \<notin> set unsafe_chars" if "c \<in> {CHR ''@'', CHR '':'', CHR ''['', CHR '']''}" for c
    using that by (auto simp: unsafe_chars_def)
  have safe: "\<not> ContainsAny ?t unsafe_chars"
    using safe_no_unsafe [OF safe_plain_text(1) [OF u]] safe_no_unsafe [OF safe_plain_text(2) [OF h]]
      safe_no_unsafe [OF safe_plain_text(3) [OF p]] brackets
    by (auto simp: ContainsAny_def JoinHostPort_def)
  have "CHR ''@'' \<notin> set u" using safe_user_byte [OF u, of "CHR ''@''"] by (auto simp: byte_def)
  then have "split_user U ?t = Inr (u, JoinHostPort h p)"
    using ne u mid by (simp add: split_user_def)
  with trim safe ne u h p show ?thesis
    by (simp add: splitTargetAddress_def formatTargetAddress_def split_host_port_format [OF h p])
qed

text \<open>
  C11. Formatting and parsing are inverse on everything that passes the checks: for every safe
  user, host and port (an IPv6 host included, which is printed in brackets) the formatted
  address is accepted again and splits into exactly these three parts.
\<close>

theorem split_format_roundtrip:
  assumes U: "unicode_ok U"
    and u: "isSafeTargetUser U u" and h: "isSafeTargetHost U h" and p: "isSafeTargetPort U p"
  shows "splitTargetAddress U (formatTargetAddress u h p) = Inr (u, h, p)"
  using assms by (rule split_format)

lemma split_format_roundtrip_witness:
  "splitTargetAddress ascii_tables (formatTargetAddress ''bob.smith'' ''::1'' ''22'') = Inr (''bob.smith'', ''::1'', ''22'')"
proof (rule split_format_roundtrip)
  show "unicode_ok ascii_tables" by (rule unicode_ok_ascii)
  show "isSafeTargetUser ascii_tables ''bob.smith''" by code_simp
  show "isSafeTargetHost ascii_tables ''::1''" by code_simp
  show "isSafeTargetPort ascii_tables ''22''" by code_simp
qed

lemma resolveTargetAddress_InrD:
  assumes "resolveTargetAddress U t su = Inr (u, h, p)"
  shows "isSafeTargetUser U u" and "isSafeTargetHost U h" and "isSafeTargetPort U p"
    and "\<exists>u'. splitTargetAddress U t = Inr (u', h, p) \<and> u = (if u' = [] then TrimSpace su else u')"
  using assms
  by (auto simp: resolveTargetAddress_def try_bind_eq_Inr Let_def
      split: if_splits dest: splitTargetAddress_InrD)

text \<open>
  C12. A resolved target always has a safe, non-empty user: the one written in the route if
  there is one, else the trimmed user of the SSH session. The parts that the code stores and
  dials are a fixed point: formatting and resolving them again, for any session user, gives
  the same target.
\<close>

lemma resolve_target_user:
  assumes U: "unicode_ok U" and r: "resolveTargetAddress U t su = Inr (u, h, p)"
  shows "isSafeTargetUser U u
    \<and> (\<exists>u'. splitTargetAddress U t = Inr (u', h, p) \<and> u = (if u' = [] then TrimSpace su else u'))
    \<and> resolveTargetAddress U (formatTargetAddress u h p) su' = Inr (u, h, p)"
proof -
  note safe = resolveTargetAddress_InrD [OF r]
  have "u \<noteq> []" using safe(1) by (simp add: isSafeTargetUser_def)
  with split_format [OF U safe(1-3)]
  have "resolveTargetAddress U (formatTargetAddress u h p) su' = Inr (u, h, p)"
    by (simp add: resolveTargetAddress_def)
  with safe show ?thesis by blast
qed

lemma resolve_target_user_witness:
  "isSafeTargetUser ascii_tables ''carol''
    \<and> resolveTargetAddress ascii_tables (formatTargetAddress ''carol'' ''db.internal'' ''22'') ''mallory''
        = Inr (''carol'', ''db.internal'', ''22'')"
proof -
  have "resolveTargetAddress ascii_tables ''db.internal'' '' carol '' = Inr (''carol'', ''db.internal'', ''22'')"
    by code_simp
  from resolve_target_user [OF unicode_ok_ascii this] show ?thesis by blast
qed

end
