(* ===== verification/Session_State.thy ===== *)
theory Session_State
  imports Go_Strings "HOL-Library.AList"
begin

text \<open>
  \<open>internal/types/types.go\<close>: the log level and the state of one proxied SSH connection.
  The state is reached through a pointer that may be nil (\<open>session_state option\<close>); every
  accessor takes the mutex for its whole body, so it is one atomic step. Objects of the SSH
  library (connections, agents, signers, sessions) are handles; a Go map is an association
  list with distinct keys, \<open>None\<close> for the nil map.
\<close>

section \<open>Log level\<close>

datatype log_level = LogLevelError | LogLevelInfo | LogLevelDebug

instantiation log_level :: linorder
begin

definition rank_log_level :: "log_level \<Rightarrow> nat" where
  "rank_log_level l = (case l of LogLevelError \<Rightarrow> 0 | LogLevelInfo \<Rightarrow> 1 | LogLevelDebug \<Rightarrow> 2)"

definition less_eq_log_level :: "log_level \<Rightarrow> log_level \<Rightarrow> bool" where
  "less_eq_log_level a b \<longleftrightarrow> rank_log_level a \<le> rank_log_level b"

definition less_log_level :: "log_level \<Rightarrow> log_level \<Rightarrow> bool" where
  "less_log_level a b \<longleftrightarrow> rank_log_level a < rank_log_level b"

instance
  by standard
     (auto simp: less_eq_log_level_def less_log_level_def rank_log_level_def split: log_level.splits)

end

text \<open>\<open>SetLogLevel\<close>: \<open>None\<close> is the exit by \<open>log.Fatalf\<close>.\<close>

definition SetLogLevel :: "string \<Rightarrow> log_level option" where
  "SetLogLevel level =
     (if level = ''error'' then Some LogLevelError
      else if level = ''info'' then Some LogLevelInfo
      else if level = ''debug'' then Some LogLevelDebug
      else None)"

definition LogInfo :: "log_level \<Rightarrow> string \<Rightarrow> string list \<Rightarrow> string list" where
  "LogInfo level msg out = (if level \<ge> LogLevelInfo then out @ [msg] else out)"

definition LogDebug :: "log_level \<Rightarrow> string \<Rightarrow> string list \<Rightarrow> string list" where
  "LogDebug level msg out = (if level \<ge> LogLevelDebug then out @ [msg] else out)"

section \<open>Keys\<close>

text \<open>
  The values of \<open>ssh.PublicKey\<close> that the proxy tells apart: certificates, with the fields of
  \<open>ssh.Certificate\<close>, and all other keys.
\<close>

datatype public_key =
    PlainKey bytes
  | CertKey (CertifiedKey: public_key) (CertType: u32) (ValidPrincipals: "string list")
      (ValidAfter: u64) (ValidBefore: u64) (SignatureKey: public_key) (Signature: bytes)

type_synonym handle = nat
type_synonym duration = int

section \<open>The session state\<close>

record session_state =
  ClientUser :: string
  ClientKey :: "public_key option"
  ClientSigner :: "handle option"
  ClientConn :: "handle option"
  AgentRequested :: bool
  AllowDirectCommands :: bool
  InsecureIgnoreHostKey :: bool
  TrustedHostCASerts :: "public_key list"
  RecordingFormat :: string
  StaticRoutingEnabled :: bool
  StaticTargets :: "string list"
  StaticRoutingMode :: string
  ConnectTimeout :: duration
  ConnectRetries :: int
  SSOEnabled :: bool
  SSOProvider :: string
  SSOBaseURL :: string
  SSORealm :: string
  SSOClientID :: string
  SSOClientSecret :: string
  SSOScope :: string
  SSOAuthTimeout :: duration
  SSOPollInterval :: duration
  SSORequestTimeout :: duration
  SSOEnforceUserMatch :: bool
  SSOInsecureSkipVerify :: bool
  SSOVerified :: bool
  AgentClient :: "handle option"
  TargetHost :: string
  TargetPort :: string
  TargetUser :: string
  TargetConn :: "handle option"
  TargetClient :: "handle option"
  TargetSession :: "handle option"
  Recorder :: "handle option"
  RecordingsDir :: string
  EnvVars :: "(string \<times> string) list option"
  PtyTerm :: string
  PtyCols :: int
  PtyRows :: int

type_synonym state_ptr = "session_state option"

text \<open>The zero value of the struct, as \<open>&types.SessionState{}\<close> makes it.\<close>

definition zero_state :: session_state where
  "zero_state = \<lparr>ClientUser = [], ClientKey = None, ClientSigner = None, ClientConn = None,
     AgentRequested = False, AllowDirectCommands = False, InsecureIgnoreHostKey = False,
     TrustedHostCASerts = [], RecordingFormat = [], StaticRoutingEnabled = False,
     StaticTargets = [], StaticRoutingMode = [], ConnectTimeout = 0, ConnectRetries = 0,
     SSOEnabled = False, SSOProvider = [], SSOBaseURL = [], SSORealm = [], SSOClientID = [],
     SSOClientSecret = [], SSOScope = [], SSOAuthTimeout = 0, SSOPollInterval = 0,
     SSORequestTimeout = 0, SSOEnforceUserMatch = False, SSOInsecureSkipVerify = False,
     SSOVerified = False, AgentClient = None, TargetHost = [], TargetPort = [], TargetUser = [],
     TargetConn = None, TargetClient = None, TargetSession = None, Recorder = None,
     RecordingsDir = [], EnvVars = None, PtyTerm = [], PtyCols = 0, PtyRows = 0\<rparr>"

section \<open>Accessors\<close>

definition SetAgentRequested :: "state_ptr \<Rightarrow> bool \<Rightarrow> state_ptr" where
  "SetAgentRequested s value = map_option (\<lambda>st. st\<lparr>AgentRequested := value\<rparr>) s"

definition IsAgentRequested :: "state_ptr \<Rightarrow> bool" where
  "IsAgentRequested s = (case s of None \<Rightarrow> False | Some st \<Rightarrow> AgentRequested st)"

definition SetSSOVerified :: "state_ptr \<Rightarrow> bool \<Rightarrow> state_ptr" where
  "SetSSOVerified s value = map_option (\<lambda>st. st\<lparr>SSOVerified := value\<rparr>) s"

definition IsSSOVerified :: "state_ptr \<Rightarrow> bool" where
  "IsSSOVerified s = (case s of None \<Rightarrow> False | Some st \<Rightarrow> SSOVerified st)"

definition SetAgentClient :: "state_ptr \<Rightarrow> handle option \<Rightarrow> state_ptr" where
  "SetAgentClient s client = map_option (\<lambda>st. st\<lparr>AgentClient := client\<rparr>) s"

definition GetAgentClient :: "state_ptr \<Rightarrow> handle option" where
  "GetAgentClient s = (case s of None \<Rightarrow> None | Some st \<Rightarrow> AgentClient st)"

definition SetEnvVar :: "state_ptr \<Rightarrow> string \<Rightarrow> string \<Rightarrow> state_ptr" where
  "SetEnvVar s name value = map_option (\<lambda>st.
     st\<lparr>EnvVars := Some (AList.update name value
       (case EnvVars st of None \<Rightarrow> [] | Some m \<Rightarrow> m))\<rparr>) s"

definition GetEnvVar :: "state_ptr \<Rightarrow> string \<Rightarrow> string" where
  "GetEnvVar s name =
     (case s of None \<Rightarrow> []
      | Some st \<Rightarrow> (case EnvVars st of None \<Rightarrow> []
          | Some m \<Rightarrow> (case map_of m name of None \<Rightarrow> [] | Some v \<Rightarrow> v)))"

text \<open>The copy of the map; the nil map copies to an empty one, the nil pointer to nil.\<close>

definition EnvVarsSnapshot :: "state_ptr \<Rightarrow> (string \<times> string) list option" where
  "EnvVarsSnapshot s =
     (case s of None \<Rightarrow> None
      | Some st \<Rightarrow> Some (case EnvVars st of None \<Rightarrow> [] | Some m \<Rightarrow> m))"

definition SetTarget :: "state_ptr \<Rightarrow> string \<Rightarrow> string \<Rightarrow> string \<Rightarrow> state_ptr" where
  "SetTarget s user host port =
     map_option (\<lambda>st. st\<lparr>TargetUser := user, TargetHost := host, TargetPort := port\<rparr>) s"

definition Target_of :: "state_ptr \<Rightarrow> string \<times> string \<times> string" where
  "Target_of s = (case s of None \<Rightarrow> ([], [], []) | Some st \<Rightarrow> (TargetUser st, TargetHost st, TargetPort st))"

definition SetTargetClient :: "state_ptr \<Rightarrow> handle option \<Rightarrow> state_ptr" where
  "SetTargetClient s client = map_option (\<lambda>st. st\<lparr>TargetClient := client\<rparr>) s"

definition TargetClientValue :: "state_ptr \<Rightarrow> handle option" where
  "TargetClientValue s = (case s of None \<Rightarrow> None | Some st \<Rightarrow> TargetClient st)"

definition SetTargetSession :: "state_ptr \<Rightarrow> handle option \<Rightarrow> state_ptr" where
  "SetTargetSession s session = map_option (\<lambda>st. st\<lparr>TargetSession := session\<rparr>) s"

definition TargetSessionValue :: "state_ptr \<Rightarrow> handle option" where
  "TargetSessionValue s = (case s of None \<Rightarrow> None | Some st \<Rightarrow> TargetSession st)"

definition SetRecorder :: "state_ptr \<Rightarrow> handle option \<Rightarrow> state_ptr" where
  "SetRecorder s recorder = map_option (\<lambda>st. st\<lparr>Recorder := recorder\<rparr>) s"

definition RecorderValue :: "state_ptr \<Rightarrow> handle option" where
  "RecorderValue s = (case s of None \<Rightarrow> None | Some st \<Rightarrow> Recorder st)"

definition SetPTY :: "state_ptr \<Rightarrow> string \<Rightarrow> int \<Rightarrow> int \<Rightarrow> state_ptr" where
  "SetPTY s term cols rows =
     map_option (\<lambda>st. st\<lparr>PtyTerm := term, PtyCols := cols, PtyRows := rows\<rparr>) s"

definition SetWindowSize :: "state_ptr \<Rightarrow> int \<Rightarrow> int \<Rightarrow> state_ptr" where
  "SetWindowSize s cols rows = map_option (\<lambda>st. st\<lparr>PtyCols := cols, PtyRows := rows\<rparr>) s"

definition PTY :: "state_ptr \<Rightarrow> string \<times> int \<times> int" where
  "PTY s = (case s of None \<Rightarrow> ([], 0, 0) | Some st \<Rightarrow> (PtyTerm st, PtyCols st, PtyRows st))"

definition SetClientUser :: "state_ptr \<Rightarrow> string \<Rightarrow> state_ptr" where
  "SetClientUser s user = map_option (\<lambda>st. st\<lparr>ClientUser := user\<rparr>) s"

definition ClientUserValue :: "state_ptr \<Rightarrow> string" where
  "ClientUserValue s = (case s of None \<Rightarrow> [] | Some st \<Rightarrow> ClientUser st)"

definition SetClientKey :: "state_ptr \<Rightarrow> public_key option \<Rightarrow> state_ptr" where
  "SetClientKey s key = map_option (\<lambda>st. st\<lparr>ClientKey := key\<rparr>) s"

definition ClientKeyValue :: "state_ptr \<Rightarrow> public_key option" where
  "ClientKeyValue s = (case s of None \<Rightarrow> None | Some st \<Rightarrow> ClientKey st)"

definition SetClientSigner :: "state_ptr \<Rightarrow> handle option \<Rightarrow> state_ptr" where
  "SetClientSigner s signer = map_option (\<lambda>st. st\<lparr>ClientSigner := signer\<rparr>) s"

definition ClientSignerValue :: "state_ptr \<Rightarrow> handle option" where
  "ClientSignerValue s = (case s of None \<Rightarrow> None | Some st \<Rightarrow> ClientSigner st)"

definition SetClientConn :: "state_ptr \<Rightarrow> handle option \<Rightarrow> state_ptr" where
  "SetClientConn s conn = map_option (\<lambda>st. st\<lparr>ClientConn := conn\<rparr>) s"

definition ClientConnValue :: "state_ptr \<Rightarrow> handle option" where
  "ClientConnValue s = (case s of None \<Rightarrow> None | Some st \<Rightarrow> ClientConn st)"

lemmas accessor_defs =
  SetAgentRequested_def IsAgentRequested_def SetSSOVerified_def IsSSOVerified_def
  SetAgentClient_def GetAgentClient_def SetEnvVar_def GetEnvVar_def EnvVarsSnapshot_def
  SetTarget_def Target_of_def SetTargetClient_def TargetClientValue_def SetTargetSession_def
  TargetSessionValue_def SetRecorder_def RecorderValue_def SetPTY_def SetWindowSize_def PTY_def
  SetClientUser_def ClientUserValue_def SetClientKey_def ClientKeyValue_def SetClientSigner_def
  ClientSignerValue_def SetClientConn_def ClientConnValue_def

lemmas accessor_simps = accessor_defs option.map_comp comp_def

section \<open>The contract of a guarded field\<close>

text \<open>
  What every pair of accessors promises its callers: on a nil pointer the setter does nothing
  and the getter returns the zero value; otherwise a read returns the last value written.
\<close>

locale guarded_cell =
  fixes get :: "'s option \<Rightarrow> 'v"
    and set_field :: "'s option \<Rightarrow> 'v \<Rightarrow> 's option"
    and zero :: 'v
  assumes get_nil: "get None = zero"
    and set_nil: "set_field None v = None"
    and set_some: "set_field (Some s) v \<noteq> None"
    and get_set: "get (set_field (Some s) v) = v"
    and set_set: "set_field (set_field p v) w = set_field p w"
begin

lemma set_is_nil: "set_field p v = None \<longleftrightarrow> p = None"
  by (cases p) (auto simp: set_nil set_some)

lemma read_write: "get (set_field p v) = (if p = None then zero else v)"
  by (cases p) (auto simp: set_nil get_nil get_set)

lemma writes_collapse: "vs \<noteq> [] \<Longrightarrow> foldl set_field p vs = set_field p (last vs)"
proof (induction vs rule: rev_induct)
  case (snoc v vs)
  then show ?case by (cases "vs = []") (auto simp: set_set)
qed simp

lemma last_write_wins: "p \<noteq> None \<Longrightarrow> vs \<noteq> [] \<Longrightarrow> get (foldl set_field p vs) = last vs"
  by (cases p) (auto simp: writes_collapse read_write)

end

text \<open>A plain field also gives back the state when its own value is written again.\<close>

locale guarded_field = guarded_cell +
  assumes set_get: "set_field p (get p) = p"
begin

lemma write_inject: "p \<noteq> None \<Longrightarrow> set_field p v = set_field p w \<longleftrightarrow> v = w"
  by (metis read_write)

lemma restore: "set_field (set_field p v) (get p) = p"
  by (simp add: set_set set_get)

end

interpretation agent_requested: guarded_field IsAgentRequested SetAgentRequested False
  by unfold_locales (auto simp: accessor_simps split: option.splits)

interpretation sso_verified: guarded_field IsSSOVerified SetSSOVerified False
  by unfold_locales (auto simp: accessor_simps split: option.splits)

interpretation agent_client: guarded_field GetAgentClient SetAgentClient None
  by unfold_locales (auto simp: accessor_simps split: option.splits)

interpretation target: guarded_field Target_of "\<lambda>p (u, h, pt). SetTarget p u h pt" "([], [], [])"
  by unfold_locales (auto simp: accessor_simps split: option.splits)

interpretation target_client: guarded_field TargetClientValue SetTargetClient None
  by unfold_locales (auto simp: accessor_simps split: option.splits)

interpretation target_session: guarded_field TargetSessionValue SetTargetSession None
  by unfold_locales (auto simp: accessor_simps split: option.splits)

interpretation recorder: guarded_field RecorderValue SetRecorder None
  by unfold_locales (auto simp: accessor_simps split: option.splits)

interpretation pty: guarded_field PTY "\<lambda>p (t, c, r). SetPTY p t c r" "([], 0, 0)"
  by unfold_locales (auto simp: accessor_simps split: option.splits)

interpretation client_user: guarded_field ClientUserValue SetClientUser "[]"
  by unfold_locales (auto simp: accessor_simps split: option.splits)

interpretation client_key: guarded_field ClientKeyValue SetClientKey None
  by unfold_locales (auto simp: accessor_simps split: option.splits)

interpretation client_signer: guarded_field ClientSignerValue SetClientSigner None
  by unfold_locales (auto simp: accessor_simps split: option.splits)

interpretation client_conn: guarded_field ClientConnValue SetClientConn None
  by unfold_locales (auto simp: accessor_simps split: option.splits)

lemma update_update: "AList.update k w (AList.update k v m) = AList.update k w m"
  by (induction m) auto

interpretation env_var: guarded_cell "\<lambda>p. GetEnvVar p name" "\<lambda>p. SetEnvVar p name" "[]" for name
  by unfold_locales
     (auto simp: accessor_simps update_update update_conv' split: option.splits)

section \<open>Facts the request handlers share\<close>

definition env_distinct :: "state_ptr \<Rightarrow> bool" where
  "env_distinct s =
     (case s of None \<Rightarrow> True
      | Some st \<Rightarrow> (case EnvVars st of None \<Rightarrow> True | Some m \<Rightarrow> distinct (map fst m)))"

lemma env_distinct_SetEnvVar [state_facts]: "env_distinct s \<Longrightarrow> env_distinct (SetEnvVar s n v)"
  by (auto simp: env_distinct_def SetEnvVar_def distinct_update split: option.splits)

lemma GetEnvVar_other [state_facts]: "m \<noteq> n \<Longrightarrow> GetEnvVar (SetEnvVar s n v) m = GetEnvVar s m"
  by (auto simp: accessor_defs update_conv' split: option.splits)

text \<open>The accessors other than \<open>SetSSOVerified\<close>, as one type of write.\<close>

datatype state_write =
    W_AgentRequested bool | W_AgentClient "handle option" | W_EnvVar string string
  | W_Target string string string | W_TargetClient "handle option" | W_TargetSession "handle option"
  | W_Recorder "handle option" | W_PTY string int int | W_WindowSize int int | W_ClientUser string
  | W_ClientKey "public_key option" | W_ClientSigner "handle option" | W_ClientConn "handle option"

fun apply_write :: "state_write \<Rightarrow> state_ptr \<Rightarrow> state_ptr" where
  "apply_write (W_AgentRequested b) s = SetAgentRequested s b"
| "apply_write (W_AgentClient c) s = SetAgentClient s c"
| "apply_write (W_EnvVar n v) s = SetEnvVar s n v"
| "apply_write (W_Target u h p) s = SetTarget s u h p"
| "apply_write (W_TargetClient c) s = SetTargetClient s c"
| "apply_write (W_TargetSession c) s = SetTargetSession s c"
| "apply_write (W_Recorder r) s = SetRecorder s r"
| "apply_write (W_PTY t c r) s = SetPTY s t c r"
| "apply_write (W_WindowSize c r) s = SetWindowSize s c r"
| "apply_write (W_ClientUser u) s = SetClientUser s u"
| "apply_write (W_ClientKey k) s = SetClientKey s k"
| "apply_write (W_ClientSigner k) s = SetClientSigner s k"
| "apply_write (W_ClientConn c) s = SetClientConn s c"

text \<open>The configuration a connection starts with, which no accessor changes.\<close>

definition policy_of :: "session_state \<Rightarrow> bool \<times> bool \<times> bool \<times> bool \<times> bool \<times> string list \<times> string \<times> public_key list" where
  "policy_of st = (AllowDirectCommands st, InsecureIgnoreHostKey st, StaticRoutingEnabled st,
     SSOEnabled st, SSOEnforceUserMatch st, StaticTargets st, StaticRoutingMode st, TrustedHostCASerts st)"

lemma apply_write_policy:
  "map_option policy_of (apply_write w s) = map_option policy_of s"
  by (cases w; cases s) (auto simp: accessor_defs policy_of_def)

lemma apply_write_verified: "IsSSOVerified (apply_write w s) = IsSSOVerified s"
  by (cases w; cases s) (auto simp: accessor_defs)

section \<open>Properties\<close>

text \<open>
  The session's security policy is fixed and its verification flag has one writer:
  no sequence of accessor calls other than \<open>SetSSOVerified\<close> changes whether direct commands
  are allowed, host keys are verified, routing is static (and to which targets), SSO is
  required or bound to the user, or whether the session counts as verified; and the window
  that \<open>SetSSOVerified\<close> closes stays closed under all of them.
\<close>

lemma policy_is_fixed:
  "map_option policy_of (fold apply_write ws s) = map_option policy_of s
   \<and> IsSSOVerified (fold apply_write ws s) = IsSSOVerified s
   \<and> IsSSOVerified (fold apply_write ws (SetSSOVerified s b)) = (s \<noteq> None \<and> b)"
proof -
  have p: "map_option policy_of (fold apply_write ws s) = map_option policy_of s" for s
    by (induction ws arbitrary: s) (auto simp: apply_write_policy)
  have v: "IsSSOVerified (fold apply_write ws s) = IsSSOVerified s" for s
    by (induction ws arbitrary: s) (auto simp: apply_write_verified)
  show ?thesis using p v sso_verified.read_write by (simp add: v)
qed

end
