(* ===== verification/Routing.thy ===== *)
theory Routing
  imports Target Session_State Keywords "HOL-Library.Multiset"
begin

text \<open>
  Choosing and reaching the target: the routing functions of \<open>internal/server/server.go\<close>.
  The process-wide round-robin counter is an argument and a result; dialling a target is the
  argument \<open>connect\<close>, which gets the number of the attempt, so it may answer differently
  each time (the client component instantiates it).
\<close>

section \<open>Routing modes\<close>

definition RoutingModeFailover :: string where
  "RoutingModeFailover = ''failover''"

definition RoutingModeRoundRobin :: string where
  "RoutingModeRoundRobin = ''round_robin''"

definition NormalizeRoutingMode :: "unicode \<Rightarrow> string \<Rightarrow> string" where
  "NormalizeRoutingMode U mode =
     (let m = ToLower U (TrimSpace mode) in
      if m = [] \<or> m = RoutingModeFailover then RoutingModeFailover
      else if m = RoutingModeRoundRobin \<or> m = ''roundrobin'' \<or> m = ''round-robin'' then RoutingModeRoundRobin
      else m)"

definition IsSupportedRoutingMode :: "unicode \<Rightarrow> string \<Rightarrow> bool" where
  "IsSupportedRoutingMode U mode \<longleftrightarrow>
     NormalizeRoutingMode U mode = RoutingModeFailover \<or> NormalizeRoutingMode U mode = RoutingModeRoundRobin"

definition routing_modes :: "string list" where
  "routing_modes = [RoutingModeFailover, RoutingModeRoundRobin]"

lemma routing_literals [simp]:
  "lower_word RoutingModeFailover" "lower_word RoutingModeRoundRobin"
  "RoutingModeFailover \<noteq> []" "RoutingModeRoundRobin \<noteq> []"
  by (simp_all add: RoutingModeFailover_def RoutingModeRoundRobin_def lower_word_def byte_def)

interpretation routing_mode: keyword_normalizer "NormalizeRoutingMode U" "IsSupportedRoutingMode U" routing_modes for U
proof unfold_locales
  fix k assume "k \<in> set routing_modes"
  then show "NormalizeRoutingMode U k = k"
    by (auto simp: routing_modes_def NormalizeRoutingMode_def Let_def)
next
  show "IsSupportedRoutingMode U x \<longleftrightarrow> NormalizeRoutingMode U x \<in> set routing_modes" for x
    by (simp add: IsSupportedRoutingMode_def routing_modes_def)
qed

section \<open>Ordering the static targets\<close>

text \<open>Go's \<open>%\<close> truncates: the remainder has the sign of the dividend.\<close>

definition go_rem :: "int \<Rightarrow> int \<Rightarrow> int" where
  "go_rem a b = (if a < 0 then - (\<bar>a\<bar> mod \<bar>b\<bar>) else \<bar>a\<bar> mod \<bar>b\<bar>)"

text \<open>
  \<open>orderedStaticTargets\<close>, with the counter before and after. The counter value is converted
  to a signed \<open>int\<close>; a negative remainder is a slice bound out of range (\<open>None\<close>).
\<close>

definition orderedStaticTargets :: "unicode \<Rightarrow> string list \<Rightarrow> string \<Rightarrow> u64 \<Rightarrow> string list option \<times> u64" where
  "orderedStaticTargets U targets mode staticRouteCounter =
     (if length targets \<le> 1 then (Some targets, staticRouteCounter)
      else if NormalizeRoutingMode U mode \<noteq> RoutingModeRoundRobin then (Some targets, staticRouteCounter)
      else
        (let counter = staticRouteCounter + 1;
             start = go_rem (sint (counter - 1)) (int (length targets))
         in if start < 0 then (None, counter)
            else (Some (drop (nat start) targets @ take (nat start) targets), counter)))"

section \<open>Candidates\<close>

datatype route_error =
    NoStaticServers | NoTargetHost | NoLCServer | BadTarget target_error

text \<open>The dynamic half of \<open>resolveTargetCandidates\<close>: argument, variable, command line.\<close>

definition dynamic_target :: "state_ptr \<Rightarrow> string \<Rightarrow> string \<Rightarrow> string" where
  "dynamic_target state targetAddr command =
     (let resolved = TrimSpace targetAddr;
          resolved = (if resolved = [] \<and> state \<noteq> None
                      then TrimSpace (GetEnvVar state ''LC_SSH_SERVER'') else resolved)
      in if resolved = [] \<and> TrimSpace command \<noteq> [] then parseTargetFromCommand command else resolved)"

definition resolveTargetCandidates ::
  "unicode \<Rightarrow> u64 \<Rightarrow> state_ptr \<Rightarrow> string \<Rightarrow> string \<Rightarrow> (route_error + string list) outcome \<times> u64" where
  "resolveTargetCandidates U counter state targetAddr command =
     (if (case state of None \<Rightarrow> False | Some st \<Rightarrow> StaticRoutingEnabled st) then
        (if StaticTargets (the state) = [] then (Returns (Inl NoStaticServers), counter)
         else (case orderedStaticTargets U (StaticTargets (the state)) (StaticRoutingMode (the state)) counter of
             (None, c) \<Rightarrow> (Panics SliceOutOfRange, c)
           | (Some ts, c) \<Rightarrow> (Returns (Inr ts), c)))
      else
        (let resolved = dynamic_target state targetAddr command in
         (Returns (if resolved = [] then (if TrimSpace command \<noteq> [] then Inl NoTargetHost else Inl NoLCServer)
          else (case ValidateTargetAddress U resolved of
              Some e \<Rightarrow> Inl (BadTarget e)
            | None \<Rightarrow> Inr [resolved])), counter)))"

section \<open>Connecting\<close>

text \<open>One line of the \<open>failures\<close> list.\<close>

datatype 'e failure = Unresolvable string target_error | DialFailed string 'e

type_synonym 'e connector = "nat \<Rightarrow> state_ptr \<Rightarrow> string \<Rightarrow> string \<Rightarrow> string \<Rightarrow> 'e + handle"

text \<open>What the loops carry: the session state, the attempt count and the failures.\<close>

type_synonym 'e progress = "state_ptr \<times> nat \<times> 'e failure list"
type_synonym connection = "handle \<times> string \<times> string \<times> string"

text \<open>The inner loop: every target once, until one answers.\<close>

fun try_targets ::
  "unicode \<Rightarrow> 'e connector \<Rightarrow> string list \<Rightarrow> 'e progress \<Rightarrow> 'e progress \<times> connection option" where
  "try_targets U connect [] pr = (pr, None)"
| "try_targets U connect (target # targets) (state, attempt, failures) =
     (case resolveTargetAddress U target (ClientUserValue state) of
        Inl e \<Rightarrow> try_targets U connect targets (state, Suc attempt, failures @ [Unresolvable target e])
      | Inr (targetUser, targetHost, targetPort) \<Rightarrow>
          (let state = SetTarget state targetUser targetHost targetPort in
           case connect (Suc attempt) state targetUser targetHost targetPort of
             Inr client \<Rightarrow> ((state, Suc attempt, failures), Some (client, targetUser, targetHost, targetPort))
           | Inl e \<Rightarrow> try_targets U connect targets
               (state, Suc attempt, failures @ [DialFailed (formatTargetAddress targetUser targetHost targetPort) e])))"

fun try_rounds ::
  "unicode \<Rightarrow> 'e connector \<Rightarrow> nat \<Rightarrow> string list \<Rightarrow> 'e progress \<Rightarrow> 'e progress \<times> connection option" where
  "try_rounds U connect 0 targets pr = (pr, None)"
| "try_rounds U connect (Suc rounds) targets pr =
     (case try_targets U connect targets pr of
        (pr', Some c) \<Rightarrow> (pr', Some c)
      | (pr', None) \<Rightarrow> try_rounds U connect rounds targets pr')"

datatype 'e connect_error = NoTargetsConfigured | AllFailed int "'e failure list"

text \<open>The number of rounds and of attempts, in Go's 64-bit \<open>int\<close>.\<close>

definition connect_rounds :: "state_ptr \<Rightarrow> int" where
  "connect_rounds state =
     (case state of None \<Rightarrow> 1
      | Some st \<Rightarrow> if ConnectRetries st > 0 then wrap64 (1 + ConnectRetries st) else 1)"

definition total_attempts :: "state_ptr \<Rightarrow> string list \<Rightarrow> int" where
  "total_attempts state targets = wrap64 (connect_rounds state * int (length targets))"

text \<open>
  The list of failures is allocated with room for all attempts before the first of them. The
  rounds are counted from 0 while the count is below \<open>connect_rounds\<close>, so never if that is
  negative.
\<close>

definition connectToFirstAvailableTarget ::
  "unicode \<Rightarrow> 'e connector \<Rightarrow> state_ptr \<Rightarrow> string list \<Rightarrow> state_ptr \<times> ('e connect_error + connection) outcome" where
  "connectToFirstAvailableTarget U connect state targets =
     (if targets = [] then (state, Returns (Inl NoTargetsConfigured))
      else if \<not> make_strings (total_attempts state targets) then (state, Panics MakeSliceOutOfRange)
      else (case try_rounds U connect (nat (connect_rounds state)) targets (state, 0, []) of
          ((state', _, _), Some c) \<Rightarrow> (state', Returns (Inr c))
        | ((state', _, failures), None) \<Rightarrow>
            (state', Returns (Inl (AllFailed (total_attempts state targets) failures)))))"

section \<open>Round robin\<close>

lemma go_rem_nat: "go_rem (int a) (int b) = int (a mod b)"
  by (simp add: go_rem_def zmod_int)

lemma sint_small_u64: "unat (c :: u64) < 2 ^ 63 \<Longrightarrow> sint c = int (unat c)"
proof -
  assume "unat c < 2 ^ 63"
  then have "int (unat c) < 2 ^ 63" by (simp only: of_nat_less_numeral_power_cancel_iff)
  then have lt: "uint c < 2 ^ 63" by (simp only: uint_nat)
  have "sint c = uint c"
  proof -
    have "0 \<le> uint c" by simp
    then have "- (2 ^ 63) \<le> uint c" by (rule order_trans [rotated]) simp
    with lt show ?thesis unfolding sint_uint by (intro signed_take_bit_int_eq_self) simp_all
  qed
  then show ?thesis by (simp only: uint_nat)
qed

lemma rotate_from_start:
  assumes "n \<le> length ts" shows "drop n ts @ take n ts = rotate n ts"
  using assms by (cases "n = length ts") (auto simp: rotate_drop_take)

lemma orderedStaticTargets_rotate:
  assumes "NormalizeRoutingMode U mode = RoutingModeRoundRobin" and "1 < length ts" and "unat c < 2 ^ 63"
  shows "orderedStaticTargets U ts mode c = (Some (rotate (unat c) ts), c + 1)"
proof -
  have "go_rem (sint c) (int (length ts)) = int (unat c mod length ts)"
    by (simp only: sint_small_u64 [OF assms(3)] go_rem_nat)
  moreover have "drop (unat c mod length ts) ts @ take (unat c mod length ts) ts = rotate (unat c) ts"
    using rotate_from_start [of "unat c mod length ts" ts] assms(2) rotate_conv_mod [of "unat c" ts]
      mod_less_divisor [of "length ts" "unat c"]
    by (metis less_imp_le less_trans zero_less_one)
  ultimately show ?thesis using assms(1,2) by (simp add: orderedStaticTargets_def Let_def)
qed

text \<open>The targets that \<open>k\<close> successive sessions try first, from a counter value on.\<close>

fun first_targets :: "unicode \<Rightarrow> string list \<Rightarrow> string \<Rightarrow> nat \<Rightarrow> u64 \<Rightarrow> string option list" where
  "first_targets U ts mode 0 c = []"
| "first_targets U ts mode (Suc k) c =
     (let (r, c') = orderedStaticTargets U ts mode c in map_option hd r # first_targets U ts mode k c')"

lemma unat_u64_Suc: "unat (c :: u64) + 1 < 2 ^ 64 \<Longrightarrow> unat (c + 1) = unat c + 1"
  by (simp add: unat_word_ariths)

lemma first_targets_nth:
  assumes "NormalizeRoutingMode U mode = RoutingModeRoundRobin" "1 < length ts" "unat c + k \<le> 2 ^ 63"
  shows "first_targets U ts mode k c = map (\<lambda>i. Some (ts ! ((unat c + i) mod length ts))) [0..<k]"
  using assms(3)
proof (induction k arbitrary: c)
  case (Suc k)
  have o: "orderedStaticTargets U ts mode c = (Some (rotate (unat c) ts), c + 1)"
    using Suc.prems by (intro orderedStaticTargets_rotate [OF assms(1,2)]) simp
  have hd: "hd (rotate (unat c) ts) = ts ! (unat c mod length ts)"
    using assms(2) by (intro hd_rotate_conv_nth) auto
  have u: "unat (c + 1) = unat c + 1" using Suc.prems by (intro unat_u64_Suc) simp
  have "first_targets U ts mode k (c + 1) = map (\<lambda>i. Some (ts ! ((unat c + 1 + i) mod length ts))) [0..<k]"
    using Suc.IH [of "c + 1"] Suc.prems by (simp add: u)
  then show ?case by (simp add: o hd upt_conv_Cons flip: map_Suc_upt del: upt_Suc)
qed simp

lemma mset_rotate: "mset (rotate n xs) = mset xs"
proof (induction n)
  case (Suc n)
  have "mset (rotate1 ys) = mset ys" for ys :: "'a list" by (cases ys) auto
  with Suc show ?case by simp
qed simp

text \<open>
  C17. Round robin is fair and complete. As long as the 64-bit session counter is below
  \<open>2^63\<close>, the order handed to a session is a rotation of the configured list (every target
  once, none lost), the counter advances by one, and any window of as many sessions as there
  are targets tries each configured target first exactly once.
\<close>

theorem round_robin_fair:
  assumes rr: "NormalizeRoutingMode U mode = RoutingModeRoundRobin" and len: "1 < length ts"
    and c: "unat c + length ts \<le> 2 ^ 63"
  shows "orderedStaticTargets U ts mode c = (Some (rotate (unat c) ts), c + 1)
    \<and> mset (first_targets U ts mode (length ts) c) = mset (map Some ts)"
proof -
  have "first_targets U ts mode (length ts) c = map Some (rotate (unat c) ts)"
    unfolding first_targets_nth [OF rr len c]
    by (rule nth_equalityI) (auto simp: nth_rotate add.commute)
  then have "mset (first_targets U ts mode (length ts) c) = mset (map Some ts)"
    by (simp add: mset_rotate)
  moreover have "unat c < 2 ^ 63" using c len by linarith
  ultimately show ?thesis using orderedStaticTargets_rotate [OF rr len] by blast
qed

lemma round_robin_fair_witness:
  "mset (first_targets ascii_tables [''a'', ''b'', ''c''] RoutingModeRoundRobin (length [''a'', ''b'', ''c'']) 5)
    = mset (map Some [''a'', ''b'', ''c''])"
  by (rule conjunct2 [OF round_robin_fair])
     (simp_all add: routing_mode.norm_keyword routing_modes_def)

text \<open>
  The counter is signed where it is used. When it reaches \<open>2^63\<close>, the conversion to
  \<open>int\<close> is negative, Go's remainder keeps the sign, and the slice bound is out of range: with
  three targets the next session panics instead of starting over.
\<close>

lemma round_robin_counter_overflow:
  "orderedStaticTargets U [''a'', ''b'', ''c''] RoutingModeRoundRobin (2 ^ 63) = (None, 2 ^ 63 + 1)"
  by (simp add: orderedStaticTargets_def Let_def go_rem_def
      routing_mode.norm_keyword [of RoutingModeRoundRobin, unfolded routing_modes_def, simplified])

section \<open>Candidates are validated\<close>

lemma orderedStaticTargets_mset: "orderedStaticTargets U ts mode c = (Some ts', c') \<Longrightarrow> mset ts' = mset ts"
  by (auto simp: orderedStaticTargets_def Let_def split: if_splits)
     (metis append_take_drop_id mset_append union_commute)

text \<open>
  C18. The candidates of a session are exactly the configured ones or one validated address.
  With static routing they are a reordering of the configured list, whatever address, command
  or environment the client sends. With dynamic routing there is exactly one, and it passes
  validation: the trimmed argument if there is one, otherwise the trimmed value of
  \<open>LC_SSH_SERVER\<close> if there is one, otherwise what the command line names.
\<close>

theorem candidates_from_policy:
  assumes "resolveTargetCandidates U c (Some st) targetAddr command = (Returns (Inr ts), c')"
  shows "if StaticRoutingEnabled st
    then ts \<noteq> [] \<and> mset ts = mset (StaticTargets st)
      \<and> resolveTargetCandidates U c (Some (st\<lparr>EnvVars := env\<rparr>)) targetAddr' command' = (Returns (Inr ts), c')
    else c' = c \<and> (\<exists>t. ts = [t] \<and> ValidateTargetAddress U t = None
      \<and> t = (if TrimSpace targetAddr \<noteq> [] then TrimSpace targetAddr
             else if TrimSpace (GetEnvVar (Some st) ''LC_SSH_SERVER'') \<noteq> []
             then TrimSpace (GetEnvVar (Some st) ''LC_SSH_SERVER'')
             else parseTargetFromCommand command))"
proof (cases "StaticRoutingEnabled st")
  case True
  with assms have o: "orderedStaticTargets U (StaticTargets st) (StaticRoutingMode st) c = (Some ts, c')"
    and ne: "StaticTargets st \<noteq> []"
    by (auto simp: resolveTargetCandidates_def split: if_splits prod.splits option.splits)
  from orderedStaticTargets_mset [OF o] ne have "ts \<noteq> []" by auto
  with True o ne orderedStaticTargets_mset [OF o] show ?thesis by (simp add: resolveTargetCandidates_def)
next
  case False
  let ?t = "dynamic_target (Some st) targetAddr command"
  from False assms have "ts = [?t]" "?t \<noteq> []" "c' = c" "ValidateTargetAddress U ?t = None"
    by (auto simp: resolveTargetCandidates_def Let_def split: if_splits option.splits)
  moreover from this(2) have "?t = (if TrimSpace targetAddr \<noteq> [] then TrimSpace targetAddr
             else if TrimSpace (GetEnvVar (Some st) ''LC_SSH_SERVER'') \<noteq> []
             then TrimSpace (GetEnvVar (Some st) ''LC_SSH_SERVER'')
             else parseTargetFromCommand command)"
    by (auto simp: dynamic_target_def Let_def)
  ultimately show ?thesis using False by auto
qed

definition dynamic_state :: session_state where
  "dynamic_state = zero_state\<lparr>EnvVars := Some [(''LC_SSH_SERVER'', ''example.com:22'')]\<rparr>"

lemma dynamic_state_candidates:
  "resolveTargetCandidates ascii_tables 0 (Some dynamic_state) [] [] = (Returns (Inr [''example.com:22'']), 0)"
  by code_simp

lemma candidates_from_policy_witness:
  "ValidateTargetAddress ascii_tables ''example.com:22'' = None"
proof -
  have "\<not> StaticRoutingEnabled dynamic_state" by (simp add: dynamic_state_def zero_state_def)
  with candidates_from_policy [OF dynamic_state_candidates] show ?thesis by auto
qed

text \<open>
  In an exec command that starts with \<open>ssh\<close>, the argument of an option other than \<open>-l\<close> and
  \<open>-u\<close> is taken for the target.
\<close>

lemma option_argument_is_target:
  "resolveTargetCandidates ascii_tables 0 (Some zero_state) [] ''ssh -p 2222 example.com'' = (Returns (Inr [''2222'']), 0)"
  by code_simp

section \<open>Connecting: the loops as one search\<close>

text \<open>What one attempt comes to, as a function of its number and its target alone.\<close>

definition attempt_result ::
  "unicode \<Rightarrow> 'e connector \<Rightarrow> state_ptr \<Rightarrow> nat \<Rightarrow> string \<Rightarrow> 'e failure + connection" where
  "attempt_result U connect s k target =
     (case resolveTargetAddress U target (ClientUserValue s) of
        Inl e \<Rightarrow> Inl (Unresolvable target e)
      | Inr (u, h, p) \<Rightarrow>
          (case connect k (SetTarget s u h p) u h p of
             Inl e \<Rightarrow> Inl (DialFailed (formatTargetAddress u h p) e)
           | Inr client \<Rightarrow> Inr (client, u, h, p)))"

fun first_success :: "('f + 'c) list \<Rightarrow> 'f list \<Rightarrow> 'f list + 'c" where
  "first_success [] fs = Inl fs"
| "first_success (Inr c # rs) fs = Inr c"
| "first_success (Inl f # rs) fs = first_success rs (fs @ [f])"

definition attempt_results ::
  "unicode \<Rightarrow> 'e connector \<Rightarrow> state_ptr \<Rightarrow> nat \<Rightarrow> string list \<Rightarrow> ('e failure + connection) list" where
  "attempt_results U connect s n ts = map (\<lambda>(k, t). attempt_result U connect s k t) (enumerate (Suc n) ts)"

lemma SetTarget_twice [simp]: "SetTarget (SetTarget s a b c) u h p = SetTarget s u h p"
  using target.set_set [of s "(a, b, c)" "(u, h, p)"] by simp

lemma ClientUser_SetTarget [simp]: "ClientUserValue (SetTarget s a b c) = ClientUserValue s"
  by (cases s) (simp_all add: accessor_defs)

lemma attempt_result_SetTarget [simp]:
  "attempt_result U connect (SetTarget s a b c) k t = attempt_result U connect s k t"
  by (simp add: attempt_result_def split: sum.split)

lemma attempt_results_SetTarget [simp]:
  "attempt_results U connect (SetTarget s a b c) n ts = attempt_results U connect s n ts"
  by (simp add: attempt_results_def)

lemma try_targets_append:
  "try_targets U connect (xs @ ys) pr =
     (case try_targets U connect xs pr of (pr', Some c) \<Rightarrow> (pr', Some c)
      | (pr', None) \<Rightarrow> try_targets U connect ys pr')"
  by (induction U connect xs pr rule: try_targets.induct)
     (auto simp: Let_def split: sum.splits prod.splits)

lemma try_rounds_flat:
  "try_rounds U connect r targets pr = try_targets U connect (concat (replicate r targets)) pr"
  by (induction r arbitrary: pr) (auto simp: try_targets_append split: prod.splits option.splits)

lemma try_targets_search:
  "case try_targets U connect ts (s, n, fs) of
     ((s', n', fs'), Some (c, u, h, p)) \<Rightarrow>
        first_success (attempt_results U connect s n ts) fs = Inr (c, u, h, p) \<and> s' = SetTarget s u h p
   | ((s', n', fs'), None) \<Rightarrow>
        first_success (attempt_results U connect s n ts) fs = Inl fs' \<and> n' = n + length ts"
proof (induction ts arbitrary: s n fs)
  case Nil
  then show ?case by (simp add: attempt_results_def)
next
  case (Cons t ts)
  have results: "attempt_results U connect s n (t # ts)
      = attempt_result U connect s (Suc n) t # attempt_results U connect s (Suc n) ts" for s
    by (simp add: attempt_results_def)
  show ?case
  proof (cases "resolveTargetAddress U t (ClientUserValue s)")
    case (Inl e)
    then have "attempt_result U connect s (Suc n) t = Inl (Unresolvable t e)"
      by (simp add: attempt_result_def)
    with Inl Cons.IH [of s "Suc n" "fs @ [Unresolvable t e]"] show ?thesis
      by (auto simp: results split: prod.splits option.splits)
  next
    case (Inr uhp)
    obtain u h p where uhp: "uhp = (u, h, p)" by (cases uhp)
    show ?thesis
    proof (cases "connect (Suc n) (SetTarget s u h p) u h p")
      case e: (Inl e)
      with Inr uhp have "attempt_result U connect s (Suc n) t = Inl (DialFailed (formatTargetAddress u h p) e)"
        by (simp add: attempt_result_def)
      with Inr uhp e Cons.IH [of "SetTarget s u h p" "Suc n" "fs @ [DialFailed (formatTargetAddress u h p) e]"]
      show ?thesis by (auto simp: results Let_def split: prod.splits option.splits)
    next
      case c: (Inr c)
      with Inr uhp have "attempt_result U connect s (Suc n) t = Inr (c, u, h, p)"
        by (simp add: attempt_result_def)
      with Inr uhp c show ?thesis by (simp add: results Let_def)
    qed
  qed
qed

text \<open>How many rounds and attempts there are as long as nothing wraps around.\<close>

definition retries_of :: "state_ptr \<Rightarrow> nat" where
  "retries_of state = (case state of None \<Rightarrow> 0 | Some st \<Rightarrow> nat (ConnectRetries st))"

lemma connect_rounds_le: "nat (connect_rounds s) \<le> Suc (retries_of s)"
proof (cases s)
  case (Some st)
  have "wrap64 (1 + r) \<le> 1 + r" if "0 < r" for r
  proof (cases "1 + r < 2 ^ 63")
    case True
    with that show ?thesis by (simp add: wrap64_id)
  next
    case False
    with wrap64_range [of "1 + r"] show ?thesis by linarith
  qed
  then have "wrap64 (1 + ConnectRetries st) \<le> int (Suc (nat (ConnectRetries st)))" if "0 < ConnectRetries st"
    using that by fastforce
  with Some show ?thesis by (auto simp: connect_rounds_def retries_of_def nat_le_iff)
qed (simp add: connect_rounds_def retries_of_def)

lemma make_strings_nat: "make_strings (int n) \<longleftrightarrow> n \<le> 2 ^ 44"
  unfolding make_strings_def by simp

lemma no_wrap:
  assumes "targets \<noteq> []" "Suc (retries_of s) * length targets < 2 ^ 63"
  shows "connect_rounds s = int (Suc (retries_of s))"
    and "total_attempts s targets = int (Suc (retries_of s) * length targets)"
proof -
  have "Suc (retries_of s) * 1 \<le> Suc (retries_of s) * length targets"
    using assms(1) by (intro mult_le_mono) (simp_all add: Suc_leI)
  from le_less_trans [OF this assms(2)] have small: "Suc (retries_of s) < 2 ^ 63" by (simp only: mult_1_right)
  show rounds: "connect_rounds s = int (Suc (retries_of s))"
  proof (cases s)
    case (Some st)
    with small have "0 < ConnectRetries st \<Longrightarrow> 1 + ConnectRetries st < 2 ^ 63"
      by (simp add: retries_of_def)
    with Some show ?thesis by (auto simp: connect_rounds_def retries_of_def wrap64_id)
  qed (simp add: connect_rounds_def retries_of_def)
  have "int (Suc (retries_of s) * length targets) < 2 ^ 63"
    using assms(2) by (simp only: of_nat_less_numeral_power_cancel_iff)
  moreover have "- (2 ^ 63) \<le> int n" for n :: nat by simp
  ultimately show "total_attempts s targets = int (Suc (retries_of s) * length targets)"
    unfolding total_attempts_def rounds of_nat_mult [symmetric] by (rule wrap64_id [rotated])
qed

lemma connect_search:
  assumes "targets \<noteq> []" "make_strings (total_attempts s targets)"
  defines "ats \<equiv> concat (replicate (nat (connect_rounds s)) targets)"
  shows "case connectToFirstAvailableTarget U connect s targets of
      (s', Returns (Inr (client, u, h, p))) \<Rightarrow>
        first_success (attempt_results U connect s 0 ats) [] = Inr (client, u, h, p) \<and> s' = SetTarget s u h p
    | (s', Returns (Inl e)) \<Rightarrow> (\<exists>fs. first_success (attempt_results U connect s 0 ats) [] = Inl fs
        \<and> e = AllFailed (total_attempts s targets) fs)
    | (s', Panics p) \<Rightarrow> False"
  using assms(1,2) try_targets_search [where U = U and connect = connect and ts = ats and s = s and n = 0 and fs = "[]"]
  by (auto simp: connectToFirstAvailableTarget_def try_rounds_flat ats_def [symmetric]
      split: prod.splits option.splits)

text \<open>
  C19. \<open>connectToFirstAvailableTarget\<close> is a search. Up to \<open>2^44\<close> attempts (given the memory), its nested retry loops
  try the sequence "all targets, one time plus the number of retries", numbering the attempts from
  1, and stop at the first that resolves and answers: the result is that connection, with the
  state pointing at that target; only if all fail it is an error, which reports the number of
  attempts and one reason for each of them, in order. Beyond \<open>2^44\<close> attempts, and below the
  overflow of the attempt count at \<open>2^63\<close>, nothing is tried: the allocation of the list of
  failures panics.
\<close>

theorem connect_is_first_success:
  fixes s :: state_ptr
  defines "retries \<equiv> (case s of None \<Rightarrow> 0 | Some st \<Rightarrow> nat (ConnectRetries st))"
  assumes "targets \<noteq> []"
  shows "((1 + retries) * length targets \<le> 2 ^ 44 \<longrightarrow>
      (let ats = concat (replicate (1 + retries) targets);
           outcome = first_success (attempt_results U connect s 0 ats) []
       in case connectToFirstAvailableTarget U connect s targets of
            (s', Returns (Inr (client, u, h, p))) \<Rightarrow> outcome = Inr (client, u, h, p) \<and> s' = SetTarget s u h p
          | (s', Returns (Inl e)) \<Rightarrow> (\<exists>fs. outcome = Inl fs \<and> e = AllFailed (int ((1 + retries) * length targets)) fs)
          | (s', Panics p) \<Rightarrow> False))
    \<and> (2 ^ 44 < (1 + retries) * length targets \<and> (1 + retries) * length targets < 2 ^ 63 \<longrightarrow>
      connectToFirstAvailableTarget U connect s targets = (s, Panics MakeSliceOutOfRange))"
proof -
  have r: "1 + retries = Suc (retries_of s)" by (simp add: retries_def retries_of_def)
  let ?n = "Suc (retries_of s) * length targets"
  have room: "make_strings (total_attempts s targets) \<longleftrightarrow> ?n \<le> 2 ^ 44" if "?n < 2 ^ 63"
    unfolding no_wrap(2) [OF assms(2) that] by (rule make_strings_nat)
  have small: "?n < 2 ^ 63" if "?n \<le> 2 ^ 44" using that by (rule le_less_trans) simp
  show ?thesis unfolding r
  proof (intro conjI impI, goal_cases)
    case 1
    note wrap = no_wrap [OF assms(2) small [OF 1]]
    have "make_strings (total_attempts s targets)" using room [OF small [OF 1]] 1 by blast
    from connect_search [OF assms(2) this, of U connect] show ?case
      by (simp only: wrap nat_int Let_def)
  next
    case 2
    with room assms(2) show ?case by (simp add: connectToFirstAvailableTarget_def)
  qed
qed

lemma connect_is_first_success_witness:
  "\<exists>fs. first_success (attempt_results ascii_tables (\<lambda>k s u h p. Inl k) None 0 [''a;b'', ''bob@h'']) []
      = Inl fs \<and> length fs = 2"
proof -
  let ?c = "(\<lambda>k s u h p. Inl k) :: nat connector"
  have run: "connectToFirstAvailableTarget ascii_tables ?c None [''a;b'', ''bob@h'']
      = (None, Returns (Inl (AllFailed 2 [Unresolvable ''a;b'' UnsafeCharacters, DialFailed ''bob@h:22'' 2])))"
    by code_simp
  show ?thesis
    using connect_is_first_success [where targets = "[''a;b'', ''bob@h'']" and U = ascii_tables
      and connect = ?c and s = None] unfolding run by auto
qed

text \<open>
  Nothing bounds the retries from above but the type. With the largest \<open>int\<close> the number of rounds
  is negative; for two targets the number of attempts wraps to zero, and none of them is tried.
\<close>

lemma retries_overflow:
  assumes "ConnectRetries st = 2 ^ 63 - 1"
  shows "connectToFirstAvailableTarget U connect (Some st) [t, t'] = (Some st, Returns (Inl (AllFailed 0 [])))"
  using assms by (simp add: connectToFirstAvailableTarget_def connect_rounds_def total_attempts_def make_strings_def wrap64_def)

end
