(* ===== verification/Recording.thy ===== *)
theory Recording
  imports Keywords "HOL-Library.Sublist"
begin

text \<open>
  \<open>internal/recording/recording.go\<close>: the two session recorders. A recorder is the struct (is
  the file field non-nil, the start time, the enabled flag) together with the file it writes,
  a byte string with a limited amount of space left, so that writes can fail part-way. The
  printing of floating-point seconds and of RFC 3339 times are the fields of \<open>clock_format\<close>.
\<close>

section \<open>Formats\<close>

definition FormatAsciinema :: string where "FormatAsciinema = ''asciinema''"
definition FormatScript :: string where "FormatScript = ''script''"

definition NormalizeFormat :: "unicode \<Rightarrow> string \<Rightarrow> string" where
  "NormalizeFormat U format =
     (let normalized = ToLower U (TrimSpace format) in
      if normalized = [] then FormatAsciinema else normalized)"

definition IsSupportedFormat :: "unicode \<Rightarrow> string \<Rightarrow> bool" where
  "IsSupportedFormat U format \<longleftrightarrow> NormalizeFormat U format \<in> {FormatAsciinema, FormatScript}"

definition FileExtension :: "unicode \<Rightarrow> string \<Rightarrow> string" where
  "FileExtension U format = (if NormalizeFormat U format = FormatScript then ''.log'' else ''.cast'')"

lemma Format_words [simp]: "lower_word FormatAsciinema" "lower_word FormatScript"
    "FormatAsciinema \<noteq> []" "FormatScript \<noteq> []" "FormatAsciinema \<noteq> FormatScript"
  by (simp_all add: FormatAsciinema_def FormatScript_def lower_word_def byte_def)

interpretation recording_format:
  keyword_normalizer "NormalizeFormat U" "IsSupportedFormat U" "[FormatAsciinema, FormatScript]" for U
  by unfold_locales (auto simp: NormalizeFormat_def IsSupportedFormat_def Let_def)

section \<open>JSON strings\<close>

definition hex_lower :: "nat \<Rightarrow> char" where
  "hex_lower n = ''0123456789abcdef'' ! n"

text \<open>
  The string encoder of \<open>json.Marshal\<close> (Go 1.21): control characters and the three HTML
  characters are escaped, bytes that are not UTF-8 become the escape of \<open>U+FFFD\<close>.
\<close>

definition json_escape :: "nat \<times> string \<Rightarrow> string" where
  "json_escape x = (let (r, b) = x in
     if r < 0x80 then
       (if r = 0x22 \<or> r = 0x5C then CHR 0x5C # b
        else if r = 0x0A then [CHR 0x5C, CHR ''n'']
        else if r = 0x0D then [CHR 0x5C, CHR ''r'']
        else if r = 0x09 then [CHR 0x5C, CHR ''t'']
        else if r < 0x20 \<or> r = 0x3C \<or> r = 0x3E \<or> r = 0x26
        then [CHR 0x5C, CHR ''u'', CHR ''0'', CHR ''0'', hex_lower (r div 16), hex_lower (r mod 16)]
        else b)
     else if bad_seg x then CHR 0x5C # ''ufffd''
     else if r = 0x2028 \<or> r = 0x2029 then CHR 0x5C # ''u202'' @ [hex_lower (r mod 16)]
     else b)"

definition json_string :: "string \<Rightarrow> string" where
  "json_string s = CHR 0x22 # concat (map json_escape (segs s)) @ [CHR 0x22]"

definition hex_value :: "char \<Rightarrow> nat" where
  "hex_value c = (if is_digit c then byte c - 0x30 else byte c - 0x57)"

text \<open>A reader of JSON strings, from behind the opening quote: the value and the rest.\<close>

fun json_read :: "string \<Rightarrow> (string \<times> string) option" where
  "json_read [] = None"
| "json_read (c # cs) =
     (if c = CHR 0x22 then Some ([], cs)
      else if c = CHR 0x5C then
        (case cs of
           [] \<Rightarrow> None
         | e # rest \<Rightarrow>
             if e = CHR ''u'' then
               (case rest of
                  h1 # h2 # h3 # h4 # rest' \<Rightarrow>
                    map_option (\<lambda>(v, t). (encode_rune (((hex_value h1 * 16 + hex_value h2) * 16
                      + hex_value h3) * 16 + hex_value h4) @ v, t)) (json_read rest')
                | _ \<Rightarrow> None)
             else
               (let d = (if e = CHR ''n'' then CHR 0x0A else if e = CHR ''r'' then CHR 0x0D
                         else if e = CHR ''t'' then CHR 0x09 else e)
                in map_option (\<lambda>(v, t). (d # v, t)) (json_read rest)))
      else map_option (\<lambda>(v, t). (c # v, t)) (json_read cs))"

lemma hex_lower_value: "n < 16 \<Longrightarrow> hex_value (hex_lower n) = n"
proof -
  assume "n < 16"
  then have "n \<in> set [0..<16]" by simp
  then show ?thesis by (auto simp: hex_value_def hex_lower_def is_digit_def byte_def upt_conv_Cons)
qed

lemma hex_lower_cases: "n < 16 \<Longrightarrow> hex_lower n \<in> set ''0123456789abcdef''"
  unfolding hex_lower_def by (rule nth_mem) simp

lemma json_read_plain:
  "\<forall>c \<in> set b. c \<noteq> CHR 0x22 \<and> c \<noteq> CHR 0x5C \<Longrightarrow>
     json_read (b @ rest) = map_option (\<lambda>(v, t). (b @ v, t)) (json_read rest)"
  by (induction b) (auto simp: option.map_comp comp_def case_prod_unfold option.map_ident)

lemma special_chars:
  "char_of (34::nat) = CHR 0x22" "char_of (92::nat) = CHR 0x5C" "char_of (10::nat) = CHR 0x0A"
  "char_of (13::nat) = CHR 0x0D" "char_of (9::nat) = CHR 0x09"
  by code_simp+

lemma json_read_escape:
  assumes "x \<in> set (segs s)"
  shows "json_read (json_escape x @ rest) = map_option (\<lambda>(v, t). (encode_rune (fst x) @ v, t)) (json_read rest)"
proof -
  obtain r b where x: "x = (r, b)" by fastforce
  from segs_shape [OF assms [unfolded x]]
  consider (ascii) c where "r < 0x80" "b = [c]" "byte c = r" | (wide) "0x80 \<le> r" "\<forall>c \<in> set b. 0x80 \<le> byte c"
    by auto
  then show ?thesis
  proof cases
    case ascii
    then have enc: "encode_rune r = [c]" by (auto simp: encode_rune_def)
    have c: "c = char_of r" by (metis ascii(3) char_of_byte)
    have hex: "hex_value (hex_lower (r div 16)) * 16 + hex_value (hex_lower (r mod 16)) = r"
      using ascii(1) by (simp add: hex_lower_value)
    have zero: "hex_value (CHR ''0'') = 0" by (simp add: hex_value_def is_digit_def byte_def)
    consider (quote) "r = 0x22 \<or> r = 0x5C" | (ctrl) "r = 0x0A \<or> r = 0x0D \<or> r = 0x09"
      | (hex) "r \<noteq> 0x22" "r \<noteq> 0x5C" "r \<noteq> 0x0A" "r \<noteq> 0x0D" "r \<noteq> 0x09" "r < 0x20 \<or> r = 0x3C \<or> r = 0x3E \<or> r = 0x26"
      | (plain) "r \<noteq> 0x22" "r \<noteq> 0x5C" "r \<noteq> 0x0A" "r \<noteq> 0x0D" "r \<noteq> 0x09" "\<not> (r < 0x20 \<or> r = 0x3C \<or> r = 0x3E \<or> r = 0x26)"
      by blast
    then show ?thesis
    proof cases
      case quote
      then show ?thesis using enc ascii(2) c by (elim disjE) (simp_all add: x json_escape_def special_chars)
    next
      case ctrl
      then show ?thesis using enc ascii(2) c by (elim disjE) (simp_all add: x json_escape_def special_chars)
    next
      case hex
      then have "json_escape x = [CHR 0x5C, CHR ''u'', CHR ''0'', CHR ''0'', hex_lower (r div 16), hex_lower (r mod 16)]"
        using ascii(1) by (simp only: x json_escape_def Let_def prod.case if_True if_False simp_thms)
      then show ?thesis using \<open>hex_value (hex_lower (r div 16)) * 16 + hex_value (hex_lower (r mod 16)) = r\<close> zero
        by (simp add: x)
    next
      case plain
      then have "json_escape x = [c]" "c \<noteq> CHR 0x22" "c \<noteq> CHR 0x5C"
        using ascii by (auto simp: x json_escape_def byte_def)
      then show ?thesis using enc by (simp add: x)
    qed
  next
    case wide
    then have plain: "\<forall>c \<in> set b. c \<noteq> CHR 0x22 \<and> c \<noteq> CHR 0x5C" by (auto simp: byte_def)
    show ?thesis
    proof (cases "bad_seg x")
      case True
      then have "r = rune_error" by (simp add: x bad_seg_def)
      with True show ?thesis
        by (simp add: x json_escape_def rune_error_def hex_value_def is_digit_def byte_def)
    next
      case False
      have enc: "encode_rune r = b" using segs_encode [OF assms False] by (simp add: x)
      show ?thesis
        using wide False plain json_read_plain [OF plain] enc
        by (auto simp: x json_escape_def hex_lower_value hex_value_def hex_lower_def is_digit_def byte_def)
    qed
  qed
qed

text \<open>Reading an encoded string gives its runes back, whatever follows it.\<close>

lemma json_string_read:
  "json_read (concat (map json_escape (segs s)) @ CHR 0x22 # rest) = Some (sanitize s, rest)"
proof -
  have "set xs \<subseteq> set (segs s) \<Longrightarrow> json_read (concat (map json_escape xs) @ CHR 0x22 # rest)
      = Some (concat (map (encode_rune \<circ> fst) xs), rest)" for xs
    by (induction xs) (auto simp: json_read_escape)
  from this [of "segs s"] show ?thesis by (simp add: sanitize_def runes_def)
qed

lemma json_escape_no_newline:
  assumes "x \<in> set (segs s)" shows "CHR 0x0A \<notin> set (json_escape x)"
proof -
  obtain r b where x: "x = (r, b)" by fastforce
  have hex: "n < 16 \<Longrightarrow> hex_lower n \<noteq> CHR 0x0A" for n using hex_lower_cases [of n] by auto
  have "r < 0x80 \<Longrightarrow> r div 16 < 16" "r mod 16 < 16" by auto
  with segs_shape [OF assms [unfolded x]] show ?thesis
    using hex [of "r div 16"] hex [of "r mod 16"]
    by (auto simp: x json_escape_def byte_def split: if_splits)
qed

lemma json_string_no_newline: "CHR 0x0A \<notin> set (json_string s)"
  using json_escape_no_newline by (auto simp: json_string_def)

section \<open>Files and recorders\<close>

text \<open>
  An open file: what was written, the space left, and whether closing succeeds. A write that
  does not fit writes what fits and fails.
\<close>

record os_file =
  fdata :: bytes
  fspace :: nat
  closes :: bool

definition file_write :: "bytes \<Rightarrow> os_file \<Rightarrow> bool \<times> os_file" where
  "file_write data f =
     (length data \<le> fspace f,
      f\<lparr>fdata := fdata f @ take (fspace f) data, fspace := fspace f - length data\<rparr>)"

datatype rec_error = WriteFailed | CloseFailed

record recorder_struct =
  rec_open :: bool
  rec_start :: int
  rec_enabled :: bool

type_synonym recorder = "recorder_struct \<times> os_file"

record clock_format =
  showSeconds :: "int \<Rightarrow> string"
  showRFC3339 :: "int \<Rightarrow> string"

definition disabled_recorder :: recorder_struct where
  "disabled_recorder = \<lparr>rec_open = False, rec_start = 0, rec_enabled = False\<rparr>"

fun show_nat :: "nat \<Rightarrow> string" where
  "show_nat n = (if n < 10 then [char_of (48 + n)] else show_nat (n div 10) @ [char_of (48 + n mod 10)])"

declare show_nat.simps [simp del]

definition AsciinemaHeader :: "nat \<Rightarrow> string \<Rightarrow> string" where
  "AsciinemaHeader timestamp session_id =
     CHR 0x7B # json_string ''version'' @ '':2,'' @ json_string ''width'' @ '':120,''
       @ json_string ''height'' @ '':40,'' @ json_string ''timestamp'' @ '':'' @ show_nat timestamp @ '',''
       @ json_string ''title'' @ '':'' @ json_string ''SSH Proxy Session'' @ '',''
       @ json_string ''metadata'' @ '':'' @ [CHR 0x7B] @ json_string ''session_id'' @ '':''
       @ json_string session_id @ [CHR 0x7D, CHR 0x7D]"

text \<open>
  \<open>os.OpenFile\<close> truncates the file; it fails when \<open>opened\<close> is false. The errors of the
  header writes are dropped, as in the code.
\<close>

definition NewAsciinemaRecorder :: "bool \<Rightarrow> int \<Rightarrow> string \<Rightarrow> os_file \<Rightarrow> recorder" where
  "NewAsciinemaRecorder opened now session_id f =
     (if \<not> opened then (disabled_recorder, f)
      else
        (let f = f\<lparr>fdata := []\<rparr>;
             (_, f) = file_write (AsciinemaHeader (nat (now div 1000000000)) session_id) f;
             (_, f) = file_write [CHR 0x0A] f
         in (\<lparr>rec_open = True, rec_start = now, rec_enabled = True\<rparr>, f)))"

definition script_header :: "clock_format \<Rightarrow> int \<Rightarrow> string" where
  "script_header F now = ''Script started on '' @ showRFC3339 F now @ [CHR 0x0A]"

definition script_footer :: "clock_format \<Rightarrow> int \<Rightarrow> string" where
  "script_footer F now = [CHR 0x0A] @ ''Script done on '' @ showRFC3339 F now @ [CHR 0x0A]"

definition NewScriptRecorder :: "clock_format \<Rightarrow> bool \<Rightarrow> int \<Rightarrow> os_file \<Rightarrow> recorder" where
  "NewScriptRecorder F opened now f =
     (if \<not> opened then (disabled_recorder, f)
      else (let (_, f) = file_write (script_header F now) (f\<lparr>fdata := []\<rparr>)
            in (\<lparr>rec_open = True, rec_start = now, rec_enabled = True\<rparr>, f)))"

definition asciinema_frame :: "clock_format \<Rightarrow> string \<Rightarrow> bytes \<Rightarrow> int \<Rightarrow> string" where
  "asciinema_frame F kind data elapsed =
     ''['' @ showSeconds F elapsed @ '','' @ json_string kind @ '','' @ json_string data @ '']''"

text \<open>The common body of the asciinema \<open>Write\<close> and \<open>WriteInput\<close>: the frame, then a newline.\<close>

definition asciinema_write :: "clock_format \<Rightarrow> string \<Rightarrow> bytes \<Rightarrow> int \<Rightarrow> recorder \<Rightarrow> rec_error option \<times> recorder" where
  "asciinema_write F kind data now rf =
     (let (r, f) = rf in
      if \<not> rec_enabled r \<or> \<not> rec_open r then (None, (r, f))
      else (case file_write (asciinema_frame F kind data (now - rec_start r)) f of
          (False, f) \<Rightarrow> (Some WriteFailed, (r, f))
        | (True, f) \<Rightarrow> (case file_write [CHR 0x0A] f of
              (ok, f) \<Rightarrow> (if ok then None else Some WriteFailed, (r, f)))))"

definition AsciinemaRecorder_Write where
  "AsciinemaRecorder_Write F data now rf = asciinema_write F ''o'' data now rf"

definition AsciinemaRecorder_WriteInput where
  "AsciinemaRecorder_WriteInput F data now rf = asciinema_write F ''i'' data now rf"

definition AsciinemaRecorder_Close :: "int \<Rightarrow> recorder \<Rightarrow> rec_error option \<times> recorder" where
  "AsciinemaRecorder_Close now rf =
     (let (r, f) = rf in
      if \<not> rec_open r then (None, (r, f))
      else (if closes f then None else Some CloseFailed, (r\<lparr>rec_open := False\<rparr>, f)))"

definition ScriptRecorder_Write :: "bytes \<Rightarrow> int \<Rightarrow> recorder \<Rightarrow> rec_error option \<times> recorder" where
  "ScriptRecorder_Write data now rf =
     (let (r, f) = rf in
      if \<not> rec_enabled r \<or> \<not> rec_open r then (None, (r, f))
      else (let (ok, f) = file_write data f in (if ok then None else Some WriteFailed, (r, f))))"

definition ScriptRecorder_WriteInput :: "bytes \<Rightarrow> int \<Rightarrow> recorder \<Rightarrow> rec_error option \<times> recorder" where
  "ScriptRecorder_WriteInput data now rf =
     (let (r, f) = rf in
      if \<not> rec_enabled r \<or> \<not> rec_open r then (None, (r, f))
      else (let (ok, f) = file_write data f in (if ok then None else Some WriteFailed, (r, f))))"

definition ScriptRecorder_Close :: "clock_format \<Rightarrow> int \<Rightarrow> recorder \<Rightarrow> rec_error option \<times> recorder" where
  "ScriptRecorder_Close F now rf =
     (let (r, f) = rf in
      if \<not> rec_open r then (None, (r, f))
      else
        (let f = (if rec_enabled r then snd (file_write (script_footer F now) f) else f)
         in (if closes f then None else Some CloseFailed, (r\<lparr>rec_open := False\<rparr>, f))))"

section \<open>The interface value\<close>

datatype recorder_kind = AsciinemaRecorder | ScriptRecorder

datatype new_recorder_error = UnsupportedFormat string

definition NewRecorder ::
  "unicode \<Rightarrow> clock_format \<Rightarrow> string \<Rightarrow> bool \<Rightarrow> int \<Rightarrow> string \<Rightarrow> os_file
     \<Rightarrow> new_recorder_error + (recorder_kind \<times> recorder)" where
  "NewRecorder U F format opened now session_id f =
     (if NormalizeFormat U format = FormatAsciinema
      then Inr (AsciinemaRecorder, NewAsciinemaRecorder opened now session_id f)
      else if NormalizeFormat U format = FormatScript
      then Inr (ScriptRecorder, NewScriptRecorder F opened now f)
      else Inl (UnsupportedFormat format))"

definition Recorder_Write :: "clock_format \<Rightarrow> recorder_kind \<Rightarrow> bytes \<Rightarrow> int \<Rightarrow> recorder \<Rightarrow> rec_error option \<times> recorder" where
  "Recorder_Write F k = (case k of
      AsciinemaRecorder \<Rightarrow> AsciinemaRecorder_Write F | ScriptRecorder \<Rightarrow> ScriptRecorder_Write)"

definition Recorder_WriteInput :: "clock_format \<Rightarrow> recorder_kind \<Rightarrow> bytes \<Rightarrow> int \<Rightarrow> recorder \<Rightarrow> rec_error option \<times> recorder" where
  "Recorder_WriteInput F k = (case k of
      AsciinemaRecorder \<Rightarrow> AsciinemaRecorder_WriteInput F | ScriptRecorder \<Rightarrow> ScriptRecorder_WriteInput)"

definition Recorder_Close :: "clock_format \<Rightarrow> recorder_kind \<Rightarrow> int \<Rightarrow> recorder \<Rightarrow> rec_error option \<times> recorder" where
  "Recorder_Close F k = (case k of
      AsciinemaRecorder \<Rightarrow> AsciinemaRecorder_Close | ScriptRecorder \<Rightarrow> ScriptRecorder_Close F)"

lemmas recorder_ops = AsciinemaRecorder_Write_def AsciinemaRecorder_WriteInput_def AsciinemaRecorder_Close_def
  ScriptRecorder_Write_def ScriptRecorder_WriteInput_def ScriptRecorder_Close_def asciinema_write_def
  file_write_def Let_def

section \<open>The contract of a recorder\<close>

datatype rec_op = OpWrite bytes int | OpInput bytes int | OpClose int

text \<open>A sequence of calls; the errors are dropped.\<close>

fun run_ops ::
  "(bytes \<Rightarrow> int \<Rightarrow> 's \<Rightarrow> 'e \<times> 's) \<Rightarrow> (bytes \<Rightarrow> int \<Rightarrow> 's \<Rightarrow> 'e \<times> 's) \<Rightarrow> (int \<Rightarrow> 's \<Rightarrow> 'e \<times> 's)
     \<Rightarrow> rec_op list \<Rightarrow> 's \<Rightarrow> 's" where
  "run_ops w i c [] s = s"
| "run_ops w i c (OpWrite d t # ops) s = run_ops w i c ops (snd (w d t s))"
| "run_ops w i c (OpInput d t # ops) s = run_ops w i c ops (snd (i d t s))"
| "run_ops w i c (OpClose t # ops) s = run_ops w i c ops (snd (c t s))"

locale session_recorder =
  fixes wr :: "bytes \<Rightarrow> int \<Rightarrow> 's \<Rightarrow> rec_error option \<times> 's"
    and wr_input :: "bytes \<Rightarrow> int \<Rightarrow> 's \<Rightarrow> rec_error option \<times> 's"
    and cl :: "int \<Rightarrow> 's \<Rightarrow> rec_error option \<times> 's"
    and is_open :: "'s \<Rightarrow> bool"
    and contents :: "'s \<Rightarrow> bytes"
  assumes closed_write: "\<not> is_open s \<Longrightarrow> wr d t s = (None, s)"
    and closed_input: "\<not> is_open s \<Longrightarrow> wr_input d t s = (None, s)"
    and closed_close: "\<not> is_open s \<Longrightarrow> cl t s = (None, s)"
    and close_closes: "\<not> is_open (snd (cl t s))"
    and write_extends: "prefix (contents s) (contents (snd (wr d t s)))"
    and input_extends: "prefix (contents s) (contents (snd (wr_input d t s)))"
    and close_extends: "prefix (contents s) (contents (snd (cl t s)))"
begin

lemma closed_run: "\<not> is_open s \<Longrightarrow> run_ops wr wr_input cl ops s = s"
proof (induction ops)
  case (Cons op ops)
  then show ?case by (cases op) (simp_all add: closed_write closed_input closed_close)
qed simp

lemma run_after_close: "run_ops wr wr_input cl (OpClose t # ops) s = snd (cl t s)"
  using closed_run [OF close_closes] by simp

lemma run_extends: "prefix (contents s) (contents (run_ops wr wr_input cl ops s))"
proof (induction ops arbitrary: s)
  case (Cons op ops)
  then show ?case
    by (cases op) (auto intro: prefix_order.order_trans write_extends input_extends close_extends)
qed simp

lemma run_append: "run_ops wr wr_input cl (xs @ ys) s
    = run_ops wr wr_input cl ys (run_ops wr wr_input cl xs s)"
proof (induction xs arbitrary: s)
  case (Cons x xs)
  then show ?case by (cases x) simp_all
qed simp

end

interpretation asciinema: session_recorder "AsciinemaRecorder_Write F" "AsciinemaRecorder_WriteInput F"
    AsciinemaRecorder_Close "\<lambda>(r, f). rec_open r" "\<lambda>(r, f). fdata f" for F
  by unfold_locales (auto simp: recorder_ops split: prod.splits bool.splits if_splits)

interpretation script: session_recorder ScriptRecorder_Write ScriptRecorder_WriteInput
    "ScriptRecorder_Close F" "\<lambda>(r, f). rec_open r" "\<lambda>(r, f). fdata f" for F
  by unfold_locales (auto simp: recorder_ops split: prod.splits bool.splits if_splits)

interpretation recorder: session_recorder "Recorder_Write F k" "Recorder_WriteInput F k"
    "Recorder_Close F k" "\<lambda>(r, f). rec_open r" "\<lambda>(r, f). fdata f" for F k
  by (cases k) (simp_all add: Recorder_Write_def Recorder_WriteInput_def Recorder_Close_def
      asciinema.session_recorder_axioms script.session_recorder_axioms)

text \<open>
  A recording can only grow. For both recorders, whatever the sequence of calls and however
  many of its writes fail, the bytes already in the file stay where they are; and once
  \<open>Close\<close> was called, every further call leaves recorder and file alone, so a copy loop
  that outlives its session cannot write into a closed recording.
\<close>

lemma recording_append_only:
  "prefix (fdata f) (fdata (snd (run_ops (Recorder_Write F k) (Recorder_WriteInput F k) (Recorder_Close F k) ops (r, f))))
   \<and> run_ops (Recorder_Write F k) (Recorder_WriteInput F k) (Recorder_Close F k) (OpClose t # ops) (r, f)
       = snd (Recorder_Close F k t (r, f))"
  using recorder.run_extends [of "(r, f)" F k ops] recorder.run_after_close [of F k t ops "(r, f)"]
  by (simp only: prod.case case_prod_unfold snd_conv fst_conv)

section \<open>What the files hold\<close>

fun asciinema_text :: "clock_format \<Rightarrow> int \<Rightarrow> rec_op list \<Rightarrow> bytes" where
  "asciinema_text F start [] = []"
| "asciinema_text F start (OpWrite d t # ops) =
     asciinema_frame F ''o'' d (t - start) @ CHR 0x0A # asciinema_text F start ops"
| "asciinema_text F start (OpInput d t # ops) =
     asciinema_frame F ''i'' d (t - start) @ CHR 0x0A # asciinema_text F start ops"
| "asciinema_text F start (OpClose t # ops) = []"

fun script_text :: "clock_format \<Rightarrow> rec_op list \<Rightarrow> bytes" where
  "script_text F [] = []"
| "script_text F (OpWrite d t # ops) = d @ script_text F ops"
| "script_text F (OpInput d t # ops) = d @ script_text F ops"
| "script_text F (OpClose t # ops) = script_footer F t"

abbreviation run_recorder :: "clock_format \<Rightarrow> recorder_kind \<Rightarrow> rec_op list \<Rightarrow> recorder \<Rightarrow> recorder" where
  "run_recorder F k \<equiv> run_ops (Recorder_Write F k) (Recorder_WriteInput F k) (Recorder_Close F k)"

lemmas recorder_dispatch = Recorder_Write_def Recorder_WriteInput_def Recorder_Close_def

lemma asciinema_write_effect:
  assumes "rec_open r" "rec_enabled r"
  shows "snd (asciinema_write F kind d t (r, f)) =
    (r, f\<lparr>fdata := fdata f @ take (fspace f) (asciinema_frame F kind d (t - rec_start r) @ [CHR 0x0A]),
          fspace := fspace f - length (asciinema_frame F kind d (t - rec_start r) @ [CHR 0x0A])\<rparr>)"
  using assms by (auto simp: asciinema_write_def file_write_def Let_def split: bool.splits)

lemma close_fdata:
  "fdata (snd (snd (Recorder_Close F AsciinemaRecorder t (r, f)))) = fdata f"
  "rec_open r \<Longrightarrow> rec_enabled r \<Longrightarrow>
     fdata (snd (snd (Recorder_Close F ScriptRecorder t (r, f)))) = fdata f @ take (fspace f) (script_footer F t)"
  by (simp_all add: recorder_dispatch AsciinemaRecorder_Close_def ScriptRecorder_Close_def file_write_def)

lemma asciinema_run_text:
  assumes "rec_open r" "rec_enabled r"
  shows "fdata (snd (run_recorder F AsciinemaRecorder ops (r, f)))
    = fdata f @ take (fspace f) (asciinema_text F (rec_start r) ops)"
  using assms
proof (induction ops arbitrary: f)
  case Nil
  then show ?case by simp
next
  case (Cons op ops)
  show ?case
  proof (cases op)
    case (OpClose t)
    then have "run_recorder F AsciinemaRecorder (op # ops) (r, f) = snd (Recorder_Close F AsciinemaRecorder t (r, f))"
      using recorder.run_after_close [of F AsciinemaRecorder t ops "(r, f)"] by simp
    with OpClose show ?thesis by (simp only: close_fdata asciinema_text.simps take_Nil append_Nil2)
  qed (use Cons in \<open>simp_all add: recorder_dispatch AsciinemaRecorder_Write_def
    AsciinemaRecorder_WriteInput_def asciinema_write_effect take_append take_Cons'\<close>)
qed

lemma script_run_text:
  assumes "rec_open r" "rec_enabled r"
  shows "fdata (snd (run_recorder F ScriptRecorder ops (r, f))) = fdata f @ take (fspace f) (script_text F ops)"
  using assms
proof (induction ops arbitrary: f)
  case Nil
  then show ?case by simp
next
  case (Cons op ops)
  show ?case
  proof (cases op)
    case (OpClose t)
    then have "run_recorder F ScriptRecorder (op # ops) (r, f) = snd (Recorder_Close F ScriptRecorder t (r, f))"
      using recorder.run_after_close [of F ScriptRecorder t ops "(r, f)"] by simp
    with OpClose Cons.prems show ?thesis by (simp only: close_fdata script_text.simps)
  qed (use Cons in \<open>simp_all add: recorder_dispatch ScriptRecorder_Write_def
    ScriptRecorder_WriteInput_def file_write_def Let_def\<close>)
qed

text \<open>
  C35. The script transcript is faithful: the file holds the header, every byte of output and
  input in the order of the calls, and the footer if the recorder was closed, cut off only
  where the disk was full. Everything after the first \<open>Close\<close> is absent.
\<close>

theorem script_transcript:
  "fdata (snd (run_recorder F ScriptRecorder ops (NewScriptRecorder F True now f)))
     = take (fspace f) (script_header F now @ script_text F ops)"
  by (simp add: NewScriptRecorder_def file_write_def script_run_text)

lemma asciinema_transcript:
  "fdata (snd (run_recorder F AsciinemaRecorder ops (NewAsciinemaRecorder True now sid f)))
     = take (fspace f) (AsciinemaHeader (nat (now div 1000000000)) sid @ CHR 0x0A # asciinema_text F now ops)"
  by (simp add: NewAsciinemaRecorder_def file_write_def asciinema_run_text take_Cons')

section \<open>Replaying an asciinema recording\<close>

text \<open>A player: the lines of the file behind the header, each read as a frame.\<close>

definition parse_frame :: "string \<Rightarrow> (string \<times> string) option" where
  "parse_frame line =
     (case dropWhile (\<lambda>c. c \<noteq> CHR '','') line of
        comma # q # rest \<Rightarrow>
          (case json_read rest of
             Some (kind, comma' # q' # rest') \<Rightarrow>
               (case json_read rest' of
                  Some (data, tail) \<Rightarrow> if tail = '']'' then Some (kind, data) else None
                | None \<Rightarrow> None)
           | _ \<Rightarrow> None)
      | _ \<Rightarrow> None)"

definition replay :: "bytes \<Rightarrow> (string \<times> string) option list" where
  "replay content = map parse_frame (butlast (tl (Split content (CHR 0x0A))))"

fun replay_events :: "rec_op list \<Rightarrow> (string \<times> string) list" where
  "replay_events [] = []"
| "replay_events (OpWrite d t # ops) = (''o'', sanitize d) # replay_events ops"
| "replay_events (OpInput d t # ops) = (''i'', sanitize d) # replay_events ops"
| "replay_events (OpClose t # ops) = []"

text \<open>The printed seconds are a JSON number: they hold no comma and no newline.\<close>

definition seconds_ok :: "clock_format \<Rightarrow> bool" where
  "seconds_ok F \<longleftrightarrow> (\<forall>t. CHR '','' \<notin> set (showSeconds F t) \<and> CHR 0x0A \<notin> set (showSeconds F t))"

lemma parse_asciinema_frame:
  assumes "seconds_ok F"
  shows "parse_frame (asciinema_frame F kind d t) = Some (sanitize kind, sanitize d)"
proof -
  have sec: "\<forall>c \<in> set (showSeconds F t). c \<noteq> CHR '',''" using assms by (auto simp: seconds_ok_def)
  have "dropWhile (\<lambda>c. c \<noteq> CHR '','') (asciinema_frame F kind d t)
      = '','' @ json_string kind @ '','' @ json_string d @ '']''"
    using sec by (simp add: asciinema_frame_def)
  then show ?thesis
    by (simp add: parse_frame_def json_string_def json_string_read)
qed

lemma frame_no_newline: "seconds_ok F \<Longrightarrow> CHR 0x0A \<notin> set (asciinema_frame F kind d t)"
  using json_string_no_newline by (auto simp: asciinema_frame_def seconds_ok_def)

lemma Split_line: "sep \<notin> set a \<Longrightarrow> Split (a @ sep # b) sep = a # Split b sep"
  by (induction a) auto

lemma show_nat_digits: "set (show_nat n) \<subseteq> set ''0123456789''"
proof (induction n rule: show_nat.induct)
  case (1 n)
  have "list_all (\<lambda>d::nat. char_of (48 + d) \<in> set ''0123456789'') [0..<10]" by code_simp
  then have digit: "d < 10 \<Longrightarrow> char_of (48 + d) \<in> set ''0123456789''" for d :: nat
    by (simp add: list_all_iff)
  show ?case
  proof (cases "n < 10")
    case True
    with digit [of n] show ?thesis by (simp only: show_nat.simps [of n] if_True) simp
  next
    case False
    with digit [of "n mod 10"] 1 show ?thesis
      by (simp only: show_nat.simps [of n] if_False set_append Un_subset_iff) simp
  qed
qed

lemma header_no_newline: "CHR 0x0A \<notin> set (AsciinemaHeader timestamp sid)"
  using json_string_no_newline show_nat_digits [of timestamp] by (auto simp: AsciinemaHeader_def)

lemma Split_text:
  assumes "seconds_ok F"
  shows "map parse_frame (butlast (Split (asciinema_text F start ops) (CHR 0x0A))) = map Some (replay_events ops)"
proof (induction ops)
  case Nil
  then show ?case by simp
next
  case (Cons op ops)
  have word: "sanitize ''o'' = ''o''" "sanitize ''i'' = ''i''" by code_simp+
  from Cons show ?case
    by (cases op)
       (simp_all add: Split_line frame_no_newline [OF assms] parse_asciinema_frame [OF assms] Split_nonempty word)
qed

text \<open>
  C34. An asciinema recording plays back what was recorded. If the disk had room, a player
  that reads the file line by line gets exactly one event per call before the first
  \<open>Close\<close>, with its direction and its bytes, in order; terminal output cannot forge or
  break a line, whatever it contains. Bytes that are not UTF-8 are the one loss: they come
  back as \<open>U+FFFD\<close>.
\<close>

theorem asciinema_replay:
  assumes "seconds_ok F"
    and "length (AsciinemaHeader (nat (now div 1000000000)) sid @ CHR 0x0A # asciinema_text F now ops) \<le> fspace f"
  shows "replay (fdata (snd (run_recorder F AsciinemaRecorder ops (NewAsciinemaRecorder True now sid f))))
     = map Some (replay_events ops)"
  using assms(2) Split_text [OF assms(1)]
  by (simp only: asciinema_transcript take_all replay_def Split_line [OF header_no_newline] list.sel)

definition sample_clock :: clock_format where
  "sample_clock = \<lparr>showSeconds = (\<lambda>t. show_nat (nat t)), showRFC3339 = (\<lambda>t. show_nat (nat t))\<rparr>"

definition sample_ops :: "rec_op list" where
  "sample_ops = [OpInput ''ls'' 5, OpWrite [CHR ''a'', CHR 0x0A, CHR 0x22] 7, OpWrite [CHR 0xFF] 8, OpClose 9, OpWrite ''late'' 10]"

lemma sample_clock_ok: "seconds_ok sample_clock"
  using show_nat_digits by (fastforce simp: seconds_ok_def sample_clock_def)

lemma asciinema_replay_witness:
  "replay (fdata (snd (run_recorder sample_clock AsciinemaRecorder sample_ops
       (NewAsciinemaRecorder True 0 ''id'' \<lparr>fdata = [], fspace = 4096, closes = True\<rparr>))))
     = [Some (''i'', ''ls''), Some (''o'', [CHR ''a'', CHR 0x0A, CHR 0x22]),
        Some (''o'', [CHR 0xEF, CHR 0xBF, CHR 0xBD])]"
proof -
  have "length (AsciinemaHeader (nat (0 div 1000000000)) ''id'' @ CHR 0x0A # asciinema_text sample_clock 0 sample_ops)
      \<le> fspace \<lparr>fdata = [], fspace = 4096, closes = True\<rparr>"
    by code_simp
  from asciinema_replay [OF sample_clock_ok this]
  have "replay (fdata (snd (run_recorder sample_clock AsciinemaRecorder sample_ops
       (NewAsciinemaRecorder True 0 ''id'' \<lparr>fdata = [], fspace = 4096, closes = True\<rparr>))))
     = map Some (replay_events sample_ops)" .
  also have "\<dots> = [Some (''i'', ''ls''), Some (''o'', [CHR ''a'', CHR 0x0A, CHR 0x22]),
        Some (''o'', [CHR 0xEF, CHR 0xBF, CHR 0xBD])]"
    by code_simp
  finally show ?thesis .
qed

text \<open>
  The loss is real: two different outputs that are not UTF-8 leave the same recording.
\<close>

lemma asciinema_loses_bytes:
  "asciinema_frame F ''o'' [CHR 0xFF] t = asciinema_frame F ''o'' [CHR 0xFE] t"
proof -
  have "json_string [CHR 0xFF] = json_string [CHR 0xFE]" by code_simp
  then show ?thesis by (simp only: asciinema_frame_def)
qed

text \<open>
  A recorder whose file could not be opened is not an error: it takes everything and keeps
  nothing, so a session goes on unrecorded.
\<close>

lemma unopened_recording_is_silent:
  assumes "IsSupportedFormat U format"
  shows "\<exists>k r. NewRecorder U F format False now sid f = Inr (k, r)
    \<and> Recorder_Write F k p t r = (None, r) \<and> Recorder_WriteInput F k p t r = (None, r)"
  using assms
  by (auto simp: NewRecorder_def IsSupportedFormat_def NewAsciinemaRecorder_def NewScriptRecorder_def
      Recorder_Write_def Recorder_WriteInput_def AsciinemaRecorder_Write_def AsciinemaRecorder_WriteInput_def
      asciinema_write_def ScriptRecorder_Write_def ScriptRecorder_WriteInput_def disabled_recorder_def Let_def)

end
