(* ===== verification/Go_Path.thy ===== *)
theory Go_Path
  imports Go_Strings
begin

text \<open>
  The part of package \<open>path/filepath\<close> the proxy uses, for Unix paths: lexical cleaning and
  \<open>filepath.Join\<close>.
\<close>

definition clean_step :: "bool \<Rightarrow> string \<Rightarrow> string list \<Rightarrow> string list" where
  "clean_step rooted part acc =
     (if part = [] \<or> part = ''.'' then acc
      else if part = ''..'' then
        (if acc \<noteq> [] \<and> last acc \<noteq> ''..'' then butlast acc
         else if rooted then acc else acc @ [''..''])
      else acc @ [part])"

definition clean_parts :: "bool \<Rightarrow> string \<Rightarrow> string list" where
  "clean_parts rooted path = fold (clean_step rooted) (Split path (CHR ''/'')) []"

definition is_rooted :: "string \<Rightarrow> bool" where
  "is_rooted path \<longleftrightarrow> path \<noteq> [] \<and> hd path = CHR ''/''"

definition unclean :: "bool \<Rightarrow> string list \<Rightarrow> string" where
  "unclean rooted parts =
     (if rooted then CHR ''/'' # Join parts ''/''
      else if parts = [] then ''.'' else Join parts ''/'')"

definition Clean :: "string \<Rightarrow> string" where
  "Clean path = unclean (is_rooted path) (clean_parts (is_rooted path) path)"

definition filepath_Join :: "string list \<Rightarrow> string" where
  "filepath_Join elems =
     (let es = dropWhile (\<lambda>e. e = []) elems in if es = [] then [] else Clean (Join es ''/''))"

lemma Join_append_last: "ps \<noteq> [] \<Longrightarrow> Join (ps @ [q]) sep = Join ps sep @ sep @ q"
  by (induction ps sep rule: Join.induct) auto

lemma Split_append: "Split (a @ sep # b) sep = Split a sep @ Split b sep"
proof (induction a)
  case (Cons c a)
  then show ?case by (cases "Split a sep") (auto simp: Split_nonempty)
qed simp

text \<open>Joining a directory and a plain name stays inside the directory.\<close>

lemma Join_plain_name:
  assumes "dir \<noteq> []" "name \<noteq> []" "CHR ''/'' \<notin> set name" "name \<noteq> ''.''" "name \<noteq> ''..''"
  shows "filepath_Join [dir, name] = unclean (is_rooted dir) (clean_parts (is_rooted dir) dir @ [name])"
proof -
  have "is_rooted (dir @ CHR ''/'' # name) = is_rooted dir" using assms(1) by (simp add: is_rooted_def)
  moreover have "clean_parts r (dir @ CHR ''/'' # name) = clean_parts r dir @ [name]" for r
    using assms by (simp add: clean_parts_def Split_append Split_no_sep clean_step_def)
  ultimately show ?thesis using assms(1) by (simp add: filepath_Join_def Clean_def)
qed

end
