(* ===== verification/File_Names.thy ===== *)
theory File_Names
  imports Recording Go_Path
begin

text \<open>
  \<open>internal/server/server.go\<close>: the file name of a recording (\<open>buildRecordingFileName\<close>,
  \<open>sanitizeFileComponent\<close>). The random part is a UUID made by a library; what the theorems use
  of it is its alphabet and its length.
\<close>

definition file_rune :: "nat \<Rightarrow> char" where
  "file_rune r =
     (if (97 \<le> r \<and> r \<le> 122) \<or> (65 \<le> r \<and> r \<le> 90) \<or> (48 \<le> r \<and> r \<le> 57) then char_of r
      else if r = 45 \<or> r = 95 \<or> r = 46 then char_of r
      else CHR ''_'')"

definition sanitizeFileComponent :: "string \<Rightarrow> string" where
  "sanitizeFileComponent value0 =
     (let value = TrimSpace value0 in
      if value = [] then [] else Trim (map file_rune (runes value)) ''._'')"

definition buildRecordingFileName :: "unicode \<Rightarrow> string \<Rightarrow> string \<Rightarrow> string \<Rightarrow> string \<Rightarrow> string \<Rightarrow> string" where
  "buildRecordingFileName U targetUser targetHost targetPort recordingID recordingFormat =
     (let user = sanitizeFileComponent targetUser;
          host = sanitizeFileComponent targetHost;
          port = sanitizeFileComponent targetPort;
          parts = (if user \<noteq> [] then [user] else []) @ (if host \<noteq> [] then [host] else [])
            @ (if port \<noteq> [] then [port] else []) @ [recordingID]
      in Join parts ''_'' @ FileExtension U recordingFormat)"

text \<open>The bytes of a recording's file name.\<close>

definition file_byte :: "char \<Rightarrow> bool" where
  "file_byte c \<longleftrightarrow> (0x61 \<le> byte c \<and> byte c \<le> 0x7A) \<or> (0x41 \<le> byte c \<and> byte c \<le> 0x5A) \<or> is_digit c
     \<or> c \<in> set ''-_.''"

definition is_uuid :: "string \<Rightarrow> bool" where
  "is_uuid s \<longleftrightarrow> length s = 36 \<and> list_all (\<lambda>c. c \<in> set ''0123456789abcdef-'') s"

lemma file_rune_byte: "file_byte (file_rune r)"
proof -
  consider "r = 45 \<or> r = 95 \<or> r = 46" | "(97 \<le> r \<and> r \<le> 122) \<or> (65 \<le> r \<and> r \<le> 90) \<or> (48 \<le> r \<and> r \<le> 57)"
    | "file_rune r = CHR ''_''" by (metis file_rune_def)
  then show ?thesis
  proof cases
    case 1
    moreover have "file_byte (file_rune 45)" "file_byte (file_rune 95)" "file_byte (file_rune 46)" by code_simp+
    ultimately show ?thesis by auto
  next
    case 2
    then have "file_rune r = char_of r" "byte (char_of r) = r" by (auto simp: file_rune_def byte_def)
    with 2 show ?thesis by (auto simp: file_byte_def is_digit_def)
  next
    case 3
    then show ?thesis by (simp add: file_byte_def)
  qed
qed

lemma uuid_byte: "is_uuid s \<Longrightarrow> c \<in> set s \<Longrightarrow> file_byte c \<and> c \<noteq> CHR ''.''"
proof -
  assume "is_uuid s" "c \<in> set s"
  then have "c \<in> set ''0123456789abcdef-''" by (simp add: is_uuid_def list_all_iff)
  moreover have "list_all (\<lambda>c. file_byte c \<and> c \<noteq> CHR ''.'') ''0123456789abcdef-''" by code_simp
  ultimately show ?thesis unfolding list_all_iff by blast
qed

lemma sanitize_bytes: "c \<in> set (sanitizeFileComponent s) \<Longrightarrow> file_byte c"
  using set_strip [of "\<lambda>c. c \<in> set ''._''" "map file_rune (runes (TrimSpace s))"] file_rune_byte
  by (auto simp: sanitizeFileComponent_def Trim_def Let_def split: if_splits)

lemma sanitize_hd: "sanitizeFileComponent s \<noteq> [] \<Longrightarrow> hd (sanitizeFileComponent s) \<noteq> CHR ''.''"
  using hd_strip_not [of "\<lambda>c. c \<in> set ''._''" "map file_rune (runes (TrimSpace s))"]
  by (auto simp: sanitizeFileComponent_def Trim_def Let_def split: if_splits)

lemma set_Join: "c \<in> set (Join ps sep) \<Longrightarrow> c \<in> set sep \<or> (\<exists>p \<in> set ps. c \<in> set p)"
  by (induction ps sep rule: Join.induct) auto

lemma hd_Join: "p \<noteq> [] \<Longrightarrow> hd (Join (p # ps) sep) = hd p \<and> Join (p # ps) sep \<noteq> []"
  by (cases ps) auto

lemma FileExtension_cases: "FileExtension U f = ''.log'' \<or> FileExtension U f = ''.cast''"
  by (simp add: FileExtension_def)

text \<open>The optional parts in front of the identifier.\<close>

definition name_parts :: "string list \<Rightarrow> string list" where
  "name_parts vs = filter (\<lambda>p. p \<noteq> []) (map sanitizeFileComponent vs)"

lemma buildRecordingFileName_alt:
  "buildRecordingFileName U u h p i f = Join (name_parts [u, h, p] @ [i]) ''_'' @ FileExtension U f"
  by (simp add: buildRecordingFileName_def name_parts_def Let_def)

text \<open>
  C38. The name of a recording cannot leave the recordings directory: whatever the client put
  into the target user, host and port, the name consists of letters, digits, dots, dashes and
  underscores, holds no path separator, and does not begin with a dot.
\<close>

theorem recording_name_safe:
  assumes "is_uuid i"
  shows "list_all file_byte (buildRecordingFileName U u h p i f)
    \<and> CHR ''/'' \<notin> set (buildRecordingFileName U u h p i f)
    \<and> buildRecordingFileName U u h p i f \<noteq> [] \<and> hd (buildRecordingFileName U u h p i f) \<noteq> CHR ''.''"
proof -
  let ?ps = "name_parts [u, h, p] @ [i]" and ?n = "buildRecordingFileName U u h p i f"
  have ext: "list_all file_byte (FileExtension U f)"
  proof -
    have "list_all file_byte ''.log''" "list_all file_byte ''.cast''" "file_byte (CHR ''_'')" by code_simp+
    with FileExtension_cases [of U f] show ?thesis by auto
  qed
  have under: "file_byte (CHR ''_'')" by code_simp
  have bytes: "file_byte c" if "q \<in> set ?ps" "c \<in> set q" for q c
    using that uuid_byte [OF assms] sanitize_bytes
    by (auto simp: name_parts_def simp del: filter.simps list.map)
  have ne: "q \<noteq> [] \<and> hd q \<noteq> CHR ''.''" if "q \<in> set ?ps" for q
  proof (cases "q = i")
    case True
    have "i \<noteq> []" using assms by (auto simp: is_uuid_def)
    with True uuid_byte [OF assms, of "hd i"] show ?thesis by simp
  next
    case False
    with that show ?thesis using sanitize_hd by (auto simp: name_parts_def simp del: filter.simps list.map)
  qed
  obtain q qs where qs: "?ps = q # qs" by (cases ?ps) auto
  then have "q \<in> set ?ps" by simp
  from ne [OF this] hd_Join [of q qs "''_''"]
  have "hd (Join (q # qs) ''_'') \<noteq> CHR ''.''" "Join (q # qs) ''_'' \<noteq> []" by auto
  then have "hd ?n \<noteq> CHR ''.''" "?n \<noteq> []"
    unfolding buildRecordingFileName_alt qs by (simp_all only: hd_append2 append_is_Nil_conv simp_thms)
  moreover have "list_all file_byte ?n"
  proof -
    have "file_byte c" if "c \<in> set (Join ?ps ''_'')" for c
      using set_Join [OF that] under bytes by (metis empty_iff list.set(1) set_ConsD)
    with ext show ?thesis unfolding buildRecordingFileName_alt list_all_iff set_append by blast
  qed
  moreover have "\<not> file_byte (CHR ''/'')" by code_simp
  ultimately show ?thesis by (auto simp: list_all_iff)
qed

text \<open>
  C39. Recordings do not overwrite each other. The file is opened with truncation, so two
  sessions must never share a name: equal names imply equal identifiers and formats, whatever
  the targets are.
\<close>

theorem recording_name_injective:
  assumes "is_uuid i" "is_uuid j"
    and "buildRecordingFileName U u h p i f = buildRecordingFileName U u' h' p' j g"
  shows "i = j \<and> FileExtension U f = FileExtension U g"
proof -
  have tail: "\<exists>pre. buildRecordingFileName U u h p i f = pre @ i @ FileExtension U f" for u h p i f
  proof (cases "name_parts [u, h, p] = []")
    case True
    then show ?thesis by (auto simp: buildRecordingFileName_alt)
  next
    case False
    then show ?thesis by (auto simp: buildRecordingFileName_alt Join_append_last)
  qed
  obtain pre pre' where
    eq: "pre @ i @ FileExtension U f = pre' @ j @ FileExtension U g"
    using tail [of u h p i f] tail [of u' h' p' j g] assms(3) by metis
  have "last (pre @ i @ FileExtension U f) = last (FileExtension U f)"
    "last (pre' @ j @ FileExtension U g) = last (FileExtension U g)"
    using FileExtension_cases [of U f] FileExtension_cases [of U g] by auto
  with eq have "FileExtension U f = FileExtension U g"
    using FileExtension_cases [of U f] FileExtension_cases [of U g] by auto
  moreover from this eq have "pre @ i = pre' @ j" by simp
  then have "i = j" using assms(1,2) by (auto simp: is_uuid_def)
  ultimately show ?thesis by simp
qed

lemma recording_name_safe_witness:
  "list_all file_byte (buildRecordingFileName ascii_tables ''../../etc'' ''evil/host'' ''22''
      ''0123456789abcdef-0123456789abcdef-01'' ''script'')"
proof -
  have "is_uuid ''0123456789abcdef-0123456789abcdef-01''" by code_simp
  from recording_name_safe [OF this] show ?thesis by blast
qed

lemma recording_name_injective_witness:
  "''0123456789abcdef-0123456789abcdef-01'' = ''0123456789abcdef-0123456789abcdef-01''
    \<and> FileExtension ascii_tables ''SCRIPT'' = FileExtension ascii_tables ''script''"
proof (rule recording_name_injective)
  show "is_uuid ''0123456789abcdef-0123456789abcdef-01''" by code_simp
  then show "is_uuid ''0123456789abcdef-0123456789abcdef-01''" .
  show "buildRecordingFileName ascii_tables ''a'' ''b'' [] ''0123456789abcdef-0123456789abcdef-01'' ''SCRIPT''
      = buildRecordingFileName ascii_tables [] ''a'' ''b'' ''0123456789abcdef-0123456789abcdef-01'' ''script''"
    by code_simp
qed

end
