(* ===== verification/Streams.thy ===== *)
theory Streams
  imports Recording
begin

text \<open>
  \<open>internal/server/server.go\<close>: the loops that copy a session's bytes (\<open>copySessionInput\<close>,
  \<open>copySessionOutput\<close>, the two recorder writers), with \<open>io.Copy\<close> and \<open>io.MultiWriter\<close> of the
  standard library. A source is the sequence of results its \<open>Read\<close> calls return, each with the
  time at which it arrives; a destination is a byte sink with limited room, as files are.
\<close>

datatype read_end = EOF | ReadError

type_synonym read_event = "bytes \<times> int \<times> read_end option"

datatype copy_end = Finished | SourceFailed | SinkFailed | StillReading

text \<open>\<open>io.Copy\<close> over a writer on states \<open>'w\<close>, which says whether it took the whole chunk.\<close>

fun io_copy :: "(bytes \<Rightarrow> int \<Rightarrow> 'w \<Rightarrow> bool \<times> 'w) \<Rightarrow> read_event list \<Rightarrow> 'w \<Rightarrow> copy_end \<times> 'w" where
  "io_copy wr [] s = (StillReading, s)"
| "io_copy wr ((p, t, e) # events) s =
     (case (if p = [] then (True, s) else wr p t s) of
        (False, s) \<Rightarrow> (SinkFailed, s)
      | (True, s) \<Rightarrow>
          (case e of
             None \<Rightarrow> io_copy wr events s
           | Some EOF \<Rightarrow> (Finished, s)
           | Some ReadError \<Rightarrow> (SourceFailed, s)))"

text \<open>\<open>io.MultiWriter\<close> of two writers: the second sees a chunk only if the first took it.\<close>

definition multi_write ::
  "(bytes \<Rightarrow> int \<Rightarrow> 'v \<Rightarrow> bool \<times> 'v) \<Rightarrow> (bytes \<Rightarrow> int \<Rightarrow> 'w \<Rightarrow> bool \<times> 'w) \<Rightarrow> bytes \<Rightarrow> int \<Rightarrow> 'v \<times> 'w \<Rightarrow> bool \<times> 'v \<times> 'w" where
  "multi_write w1 w2 p t s =
     (case w1 p t (fst s) of
        (False, a) \<Rightarrow> (False, a, snd s)
      | (True, a) \<Rightarrow> (case w2 p t (snd s) of (ok, b) \<Rightarrow> (ok, a, b)))"

type_synonym recorder_value = "(recorder_kind \<times> recorder) option"

definition outputRecorderWriter_Write :: "clock_format \<Rightarrow> bytes \<Rightarrow> int \<Rightarrow> recorder_value \<Rightarrow> bool \<times> recorder_value" where
  "outputRecorderWriter_Write F p t r =
     (case r of
        None \<Rightarrow> (True, None)
      | Some (k, s) \<Rightarrow> (case Recorder_Write F k p t s of (err, s) \<Rightarrow> (err = None, Some (k, s))))"

definition inputRecorderWriter_Write :: "clock_format \<Rightarrow> bytes \<Rightarrow> int \<Rightarrow> recorder_value \<Rightarrow> bool \<times> recorder_value" where
  "inputRecorderWriter_Write F p t r =
     (case r of
        None \<Rightarrow> (True, None)
      | Some (k, s) \<Rightarrow> (case Recorder_WriteInput F k p t s of (err, s) \<Rightarrow> (err = None, Some (k, s))))"

definition sink_write :: "bytes \<Rightarrow> int \<Rightarrow> os_file \<Rightarrow> bool \<times> os_file" where
  "sink_write p t f = file_write p f"

text \<open>
  The destination is closed when the copy ends (the last component says so); while the source
  is still being read it stays open.
\<close>

definition copySessionInput ::
  "clock_format \<Rightarrow> read_event list \<Rightarrow> os_file \<Rightarrow> recorder_value \<Rightarrow> copy_end \<times> os_file \<times> recorder_value \<times> bool" where
  "copySessionInput F src dst recorder =
     (case io_copy (multi_write sink_write (inputRecorderWriter_Write F)) src (dst, recorder) of
        (e, dst, recorder) \<Rightarrow> (e, dst, recorder, e \<noteq> StillReading))"

definition copySessionOutput ::
  "clock_format \<Rightarrow> read_event list \<Rightarrow> os_file \<Rightarrow> recorder_value \<Rightarrow> copy_end \<times> os_file \<times> recorder_value" where
  "copySessionOutput F src dst recorder =
     io_copy (multi_write sink_write (outputRecorderWriter_Write F)) src (dst, recorder)"

section \<open>What is delivered is recorded\<close>

text \<open>The chunks a source delivers before it ends, with their arrival times.\<close>

fun chunks :: "read_event list \<Rightarrow> (bytes \<times> int) list" where
  "chunks [] = []"
| "chunks ((p, t, e) # events) =
     (if p = [] then [] else [(p, t)]) @ (if e = None then chunks events else [])"

text \<open>
  A tap: a second writer that only ever appends to a log of the chunks it was offered. The two
  recorder writers are taps whose log is the sequence of calls to the recorder.
\<close>

lemma copy_with_tap:
  fixes tap :: "bytes \<Rightarrow> int \<Rightarrow> 'w \<Rightarrow> bool \<times> 'w" and replay :: "(bytes \<times> int) list \<Rightarrow> 'w \<Rightarrow> 'w"
  assumes nil: "\<And>w. replay [] w = w"
    and cons: "\<And>p t cs w. replay ((p, t) # cs) w = replay cs (snd (tap p t w))"
    and run: "io_copy (multi_write sink_write tap) src (dst, w) = (e, dst', w')"
  shows "\<exists>n rest. w' = replay (take n (chunks src)) w \<and> n \<le> length (chunks src)
    \<and> fdata dst' = fdata dst @ concat (map fst (take n (chunks src))) @ rest
    \<and> (rest = [] \<or> (n < length (chunks src) \<and> strict_prefix rest (fst (chunks src ! n))))
    \<and> (e = Finished \<or> e = SourceFailed \<or> e = StillReading \<longrightarrow> n = length (chunks src) \<and> rest = [])"
  using run
proof (induction src arbitrary: dst w)
  case Nil
  then show ?case by (auto intro!: exI [of _ 0] simp: nil)
next
  case (Cons ev src)
  obtain p t en where ev: "ev = (p, t, en)" by (cases ev) auto
  show ?case
  proof (cases "p = []")
    case True
    show ?thesis
    proof (cases en)
      case None
      with Cons.prems True ev have "io_copy (multi_write sink_write tap) src (dst, w) = (e, dst', w')" by simp
      from Cons.IH [OF this] True None ev show ?thesis by simp
    next
      case (Some r)
      with Cons.prems True ev show ?thesis
        by (cases r) (auto intro!: exI [of _ 0] simp: nil)
    qed
  next
    case p: False
    show ?thesis
    proof (cases "length p \<le> fspace dst")
      case False
      with Cons.prems p ev have res: "e = SinkFailed" "w' = w" "fdata dst' = fdata dst @ take (fspace dst) p"
        by (auto simp: multi_write_def sink_write_def file_write_def split: prod.splits)
      have "strict_prefix (take (fspace dst) p) p" using False by (auto simp: strict_prefix_def take_is_prefix)
      with res p ev show ?thesis
        by (intro exI [of _ 0] exI [of _ "take (fspace dst) p"]) (simp add: nil)
    next
      case fits: True
      let ?dst = "dst\<lparr>fdata := fdata dst @ p, fspace := fspace dst - length p\<rparr>" and ?w = "snd (tap p t w)"
      have step: "multi_write sink_write tap p t (dst, w) = (fst (tap p t w), ?dst, ?w)"
        using fits by (simp add: multi_write_def sink_write_def file_write_def split: prod.splits)
      show ?thesis
      proof (cases "fst (tap p t w) \<and> en = None")
        case True
        with Cons.prems p ev step have "io_copy (multi_write sink_write tap) src (?dst, ?w) = (e, dst', w')" by simp
        from Cons.IH [OF this] obtain n rest where
          "w' = replay (take n (chunks src)) ?w" "n \<le> length (chunks src)"
          "fdata dst' = fdata ?dst @ concat (map fst (take n (chunks src))) @ rest"
          "rest = [] \<or> (n < length (chunks src) \<and> strict_prefix rest (fst (chunks src ! n)))"
          "e = Finished \<or> e = SourceFailed \<or> e = StillReading \<longrightarrow> n = length (chunks src) \<and> rest = []"
          by blast
        then show ?thesis using p ev True
          by (intro exI [of _ "Suc n"] exI [of _ rest]) (auto simp: cons)
      next
        case False
        with Cons.prems p ev step have "w' = ?w" "dst' = ?dst"
          "e = SinkFailed \<or> en \<noteq> None"
          by (auto split: bool.splits option.splits read_end.splits)
        with p ev show ?thesis
          by (intro exI [of _ "Suc 0"] exI [of _ "[]"]) (auto simp: cons nil take_Suc_conv_app_nth)
      qed
    qed
  qed
qed

definition replay_input :: "clock_format \<Rightarrow> (bytes \<times> int) list \<Rightarrow> recorder_value \<Rightarrow> recorder_value" where
  "replay_input F cs r =
     map_option (\<lambda>(k, s). (k, run_recorder F k (map (\<lambda>(p, t). OpInput p t) cs) s)) r"

definition replay_output :: "clock_format \<Rightarrow> (bytes \<times> int) list \<Rightarrow> recorder_value \<Rightarrow> recorder_value" where
  "replay_output F cs r =
     map_option (\<lambda>(k, s). (k, run_recorder F k (map (\<lambda>(p, t). OpWrite p t) cs) s)) r"

lemma replay_laws [simp]:
  "replay_input F [] r = r" "replay_output F [] r = r"
  "replay_input F ((p, t) # cs) r = replay_input F cs (snd (inputRecorderWriter_Write F p t r))"
  "replay_output F ((p, t) # cs) r = replay_output F cs (snd (outputRecorderWriter_Write F p t r))"
  by (auto simp: replay_input_def replay_output_def inputRecorderWriter_Write_def
      outputRecorderWriter_Write_def option.map_id split: option.splits prod.splits)

lemma run_unusable:
  "\<not> (rec_open (fst s) \<and> rec_enabled (fst s)) \<Longrightarrow> run_recorder F k (map (\<lambda>(p, t). OpInput p t) cs) s = s"
proof (induction cs)
  case (Cons c cs)
  then show ?case
    by (cases c; cases k) (auto simp: recorder_dispatch AsciinemaRecorder_WriteInput_def asciinema_write_def
        ScriptRecorder_WriteInput_def Let_def split: prod.splits)
qed simp

lemma script_text_inputs: "script_text F (map (\<lambda>(p, t). OpInput p t) cs) = concat (map fst cs)"
  by (induction cs) auto

text \<open>
  C36. The recorder is told what the target was sent. \<open>copySessionInput\<close> writes a chunk to the
  target first and offers it to the recorder after that. When it stops, some number of chunks was
  delivered to the target whole, and exactly these chunks, in this order, were offered to the
  recorder as input; if the target failed, it may have got a proper part of the next chunk, which
  the recorder does not see. If neither side failed, everything read was delivered and offered. An
  enabled recorder has appended what it was offered to its file, as bytes or as input frames, cut
  off only where the disk was full; a disabled one has kept nothing.
\<close>

theorem input_is_recorded:
  assumes "copySessionInput F src dst (Some (k, s)) = (e, dst', r', closed)"
  shows "\<exists>n rest s'. r' = Some (k, s') \<and> s' = run_recorder F k (map (\<lambda>(p, t). OpInput p t) (take n (chunks src))) s
    \<and> n \<le> length (chunks src)
    \<and> fdata dst' = fdata dst @ concat (map fst (take n (chunks src))) @ rest
    \<and> (rest = [] \<or> (n < length (chunks src) \<and> strict_prefix rest (fst (chunks src ! n))))
    \<and> (e \<noteq> SinkFailed \<longrightarrow> n = length (chunks src) \<and> rest = [])
    \<and> closed = (e \<noteq> StillReading)
    \<and> (if rec_open (fst s) \<and> rec_enabled (fst s)
       then fdata (snd s') = fdata (snd s) @ take (fspace (snd s)) (case k of
           ScriptRecorder \<Rightarrow> concat (map fst (take n (chunks src)))
         | AsciinemaRecorder \<Rightarrow> asciinema_text F (rec_start (fst s)) (map (\<lambda>(p, t). OpInput p t) (take n (chunks src))))
       else s' = s)"
proof -
  from assms have run: "io_copy (multi_write sink_write (inputRecorderWriter_Write F)) src (dst, Some (k, s)) = (e, dst', r')"
    and closed: "closed = (e \<noteq> StillReading)"
    by (auto simp: copySessionInput_def split: prod.splits)
  from copy_with_tap [OF _ _ run, of "replay_input F"] obtain n rest where
    n: "r' = replay_input F (take n (chunks src)) (Some (k, s))" "n \<le> length (chunks src)"
    "fdata dst' = fdata dst @ concat (map fst (take n (chunks src))) @ rest"
    "rest = [] \<or> (n < length (chunks src) \<and> strict_prefix rest (fst (chunks src ! n)))"
    "e = Finished \<or> e = SourceFailed \<or> e = StillReading \<longrightarrow> n = length (chunks src) \<and> rest = []"
    by auto
  obtain r f where s: "s = (r, f)" by (cases s)
  let ?ops = "map (\<lambda>(p, t). OpInput p t) (take n (chunks src))"
  have kept: "if rec_open (fst s) \<and> rec_enabled (fst s)
       then fdata (snd (run_recorder F k ?ops s)) = fdata (snd s) @ take (fspace (snd s)) (case k of
           ScriptRecorder \<Rightarrow> concat (map fst (take n (chunks src)))
         | AsciinemaRecorder \<Rightarrow> asciinema_text F (rec_start (fst s)) ?ops)
       else run_recorder F k ?ops s = s"
    unfolding s using asciinema_run_text [of r F ?ops f] script_run_text [of r F ?ops f] run_unusable [of "(r, f)" F k "take n (chunks src)"]
    by (cases k) (auto simp: script_text_inputs)
  have "r' = Some (k, run_recorder F k ?ops s)" using n(1) by (simp add: replay_input_def)
  moreover have "e \<noteq> SinkFailed \<longrightarrow> n = length (chunks src) \<and> rest = []" using n(5) by (cases e) auto
  ultimately show ?thesis using n(2-4) closed kept by blast
qed

lemma output_is_recorded:
  assumes "copySessionOutput F src dst (Some (k, s)) = (e, dst', r')"
  shows "\<exists>n rest. r' = Some (k, run_recorder F k (map (\<lambda>(p, t). OpWrite p t) (take n (chunks src))) s)
    \<and> n \<le> length (chunks src)
    \<and> fdata dst' = fdata dst @ concat (map fst (take n (chunks src))) @ rest
    \<and> (rest = [] \<or> (n < length (chunks src) \<and> strict_prefix rest (fst (chunks src ! n))))
    \<and> (e \<noteq> SinkFailed \<longrightarrow> n = length (chunks src) \<and> rest = [])"
proof -
  from assms have run: "io_copy (multi_write sink_write (outputRecorderWriter_Write F)) src (dst, Some (k, s)) = (e, dst', r')"
    by (simp add: copySessionOutput_def)
  from copy_with_tap [OF _ _ run, of "replay_output F"] obtain n rest where
    "r' = replay_output F (take n (chunks src)) (Some (k, s))" "n \<le> length (chunks src)"
    "fdata dst' = fdata dst @ concat (map fst (take n (chunks src))) @ rest"
    "rest = [] \<or> (n < length (chunks src) \<and> strict_prefix rest (fst (chunks src ! n)))"
    "e = Finished \<or> e = SourceFailed \<or> e = StillReading \<longrightarrow> n = length (chunks src) \<and> rest = []"
    by auto
  then show ?thesis
    by (intro exI [of _ n] exI [of _ rest]) (cases e; simp add: replay_output_def)
qed

lemma script_text_outputs: "script_text F (map (\<lambda>(p, t). OpWrite p t) cs) = concat (map fst cs)"
  by (induction cs) auto

text \<open>
  C37. One output stream, copied by itself through a fresh script recorder, is transcribed as it
  was delivered: the recording is the header followed by exactly the chunks that were delivered
  whole, cut off only where the disk was full. Beyond them a failing terminal connection may have
  taken a proper part of the next chunk; unless a write failed, all chunks were delivered. (In a
  session the recorder also gets the chunks of the other output stream and of the input, each as
  it arrives.)
\<close>

theorem transcript_is_delivered_output:
  assumes "copySessionOutput F src dst (Some (ScriptRecorder, NewScriptRecorder F True now f)) = (e, dst', r')"
  shows "\<exists>n rest rs f'. r' = Some (ScriptRecorder, rs, f') \<and> n \<le> length (chunks src)
    \<and> fdata dst' = fdata dst @ concat (map fst (take n (chunks src))) @ rest
    \<and> (rest = [] \<or> (e = SinkFailed \<and> n < length (chunks src) \<and> strict_prefix rest (fst (chunks src ! n))))
    \<and> (e \<noteq> SinkFailed \<longrightarrow> n = length (chunks src))
    \<and> fdata f' = take (fspace f) (script_header F now @ concat (map fst (take n (chunks src))))"
proof -
  from output_is_recorded [OF assms] obtain n rest where n:
    "r' = Some (ScriptRecorder, run_recorder F ScriptRecorder (map (\<lambda>(p, t). OpWrite p t) (take n (chunks src))) (NewScriptRecorder F True now f))"
    "n \<le> length (chunks src)" "fdata dst' = fdata dst @ concat (map fst (take n (chunks src))) @ rest"
    "rest = [] \<or> (n < length (chunks src) \<and> strict_prefix rest (fst (chunks src ! n)))"
    "e \<noteq> SinkFailed \<longrightarrow> n = length (chunks src) \<and> rest = []" by blast
  obtain rs f' where rf: "run_recorder F ScriptRecorder (map (\<lambda>(p, t). OpWrite p t) (take n (chunks src)))
      (NewScriptRecorder F True now f) = (rs, f')" by fastforce
  have "fdata f' = take (fspace f) (script_header F now @ concat (map fst (take n (chunks src))))"
    using script_run_text [of "fst (NewScriptRecorder F True now f)" F "map (\<lambda>(p, t). OpWrite p t) (take n (chunks src))"
        "snd (NewScriptRecorder F True now f)"] rf
    by (simp add: NewScriptRecorder_def file_write_def script_text_outputs)
  with n rf show ?thesis by (intro exI [of _ n] exI [of _ rest] exI [of _ rs] exI [of _ f']) auto
qed

definition sample_source :: "read_event list" where
  "sample_source = [(''ls'', 1, None), ([], 2, None), (''-l'', 3, Some EOF)]"

definition roomy :: os_file where
  "roomy = \<lparr>fdata = [], fspace = 100, closes = True\<rparr>"

lemma input_is_recorded_witness:
  "fdata (fst (snd (copySessionInput sample_clock sample_source roomy
       (Some (ScriptRecorder, NewScriptRecorder sample_clock True 0 roomy))))) = ''ls-l''"
proof -
  obtain e dst' r' closed where run: "copySessionInput sample_clock sample_source roomy
      (Some (ScriptRecorder, NewScriptRecorder sample_clock True 0 roomy)) = (e, dst', r', closed)"
    by (metis prod_cases4)
  have "fst (copySessionInput sample_clock sample_source roomy
      (Some (ScriptRecorder, NewScriptRecorder sample_clock True 0 roomy))) = Finished" by code_simp
  with run have "e = Finished" by simp
  with input_is_recorded [OF run] have "fdata dst' = fdata roomy @ concat (map fst (chunks sample_source))"
    by auto
  also have "\<dots> = ''ls-l''" by code_simp
  finally show ?thesis by (simp add: run)
qed

lemma transcript_is_delivered_output_witness:
  "\<exists>e dst' rs f'. copySessionOutput sample_clock sample_source roomy
      (Some (ScriptRecorder, NewScriptRecorder sample_clock True 0 roomy)) = (e, dst', Some (ScriptRecorder, rs, f'))"
proof -
  obtain e dst' r' where run: "copySessionOutput sample_clock sample_source roomy
      (Some (ScriptRecorder, NewScriptRecorder sample_clock True 0 roomy)) = (e, dst', r')"
    by (metis prod_cases3)
  from transcript_is_delivered_output [OF run] run show ?thesis by metis
qed

end
