(* ===== verification/Client.thy ===== *)
theory Client
  imports Session_State Go_Path Go_Net Streams
begin

text \<open>
  \<open>internal/client/client.go\<close>: the connection to a target. The environment variables, the home
  directory, the \<open>known_hosts\<close> parser, the forwarded agent and \<open>ssh.Dial\<close> are the fields of
  \<open>client_world\<close>; objects of the SSH library are handles.
\<close>

section \<open>The world\<close>

datatype host_key_callback = KnownHosts string | InsecureIgnoreHostKeys

record client_config =
  cfgUser :: string
  cfgAuth :: "handle list"
  cfgHostKeyCallback :: host_key_callback
  cfgTimeout :: duration

record client_world =
  Getenv :: "string \<Rightarrow> string"
  HomeDir :: "string option"
  KnownHostsOk :: "string \<Rightarrow> bool"
  OpenAgentChannel :: "handle \<Rightarrow> handle option"
  AgentSigners :: "handle \<Rightarrow> handle list option"
  Dial :: "string \<Rightarrow> client_config \<Rightarrow> handle option"

datatype client_error =
    StateIsNil | AgentNotOpened | AgentUnavailable | SignersFailed | NoSigners
  | HomeUnknown | KnownHostsRequired string | ConnectFailed string string

section \<open>Host keys\<close>

definition insecureIgnoreHostKeyEnv :: string where
  "insecureIgnoreHostKeyEnv = ''SSH_PROXY_INSECURE_IGNORE_HOSTKEY''"

definition envEnabled :: "client_world \<Rightarrow> string \<Rightarrow> bool" where
  "envEnabled W name =
     (let value = TrimSpace (Getenv W name) in
      value = ''1'' \<or> EqualFold value ''true'' \<or> EqualFold value ''yes'')"

definition hostKeyVerificationDisabled :: "client_world \<Rightarrow> state_ptr \<Rightarrow> bool" where
  "hostKeyVerificationDisabled W state \<longleftrightarrow>
     (case state of None \<Rightarrow> False | Some st \<Rightarrow> InsecureIgnoreHostKey st) \<or> envEnabled W insecureIgnoreHostKeyEnv"

definition getHostKeyCallback :: "client_world \<Rightarrow> state_ptr \<Rightarrow> client_error + host_key_callback" where
  "getHostKeyCallback W state =
     (case HomeDir W of
        None \<Rightarrow> Inl HomeUnknown
      | Some homeDir \<Rightarrow>
          (let knownHostsPath = filepath_Join [homeDir, ''.ssh'', ''known_hosts''];
               ok = KnownHostsOk W knownHostsPath in
           if ok \<and> \<not> hostKeyVerificationDisabled W state then Inr (KnownHosts knownHostsPath)
           else if hostKeyVerificationDisabled W state then Inr InsecureIgnoreHostKeys
           else if ok then Inr (KnownHosts knownHostsPath)
           else Inl (KnownHostsRequired knownHostsPath)))"

section \<open>The forwarded agent\<close>

definition GetSSHAgentConn :: "client_world \<Rightarrow> state_ptr \<Rightarrow> client_error + handle option" where
  "GetSSHAgentConn W state =
     (if state = None then Inl StateIsNil
      else (case GetAgentClient state of
          Some client \<Rightarrow> Inr (Some client)
        | None \<Rightarrow>
            (case (IsAgentRequested state, ClientConnValue state) of
               (True, Some conn) \<Rightarrow>
                 (case OpenAgentChannel W conn of
                    Some agentChannel \<Rightarrow> Inr (Some agentChannel)
                  | None \<Rightarrow> Inl AgentNotOpened)
             | _ \<Rightarrow> Inr None)))"

definition GetAgentSigner :: "client_world \<Rightarrow> state_ptr \<Rightarrow> client_error + handle" where
  "GetAgentSigner W state =
     (if state = None then Inl StateIsNil
      else try_bind (GetSSHAgentConn W state) (\<lambda>agentClient.
        case agentClient of
          None \<Rightarrow> Inl AgentUnavailable
        | Some ag \<Rightarrow>
            (case AgentSigners W ag of
               None \<Rightarrow> Inl SignersFailed
             | Some [] \<Rightarrow> Inl NoSigners
             | Some (signer # _) \<Rightarrow> Inr signer)))"

definition authMethodForClient :: "client_world \<Rightarrow> state_ptr \<Rightarrow> client_error + handle list" where
  "authMethodForClient W state = try_bind (GetAgentSigner W state) (\<lambda>signer. Inr [signer])"

definition ConnectToTarget ::
  "client_world \<Rightarrow> state_ptr \<Rightarrow> string \<Rightarrow> string \<Rightarrow> string \<Rightarrow> client_error + handle" where
  "ConnectToTarget W state targetUser targetHost targetPort =
     try_bind (authMethodForClient W state) (\<lambda>authMethod.
     try_bind (getHostKeyCallback W state) (\<lambda>hostKeyCallback.
       let timeout = (case state of None \<Rightarrow> seconds 10
             | Some st \<Rightarrow> if ConnectTimeout st > 0 then ConnectTimeout st else seconds 10);
           config = \<lparr>cfgUser = targetUser, cfgAuth = authMethod,
             cfgHostKeyCallback = hostKeyCallback, cfgTimeout = timeout\<rparr>;
           targetNetwork = JoinHostPort targetHost targetPort
       in case Dial W targetNetwork config of
            None \<Rightarrow> Inl (ConnectFailed targetUser targetNetwork)
          | Some client \<Rightarrow> Inr client))"

text \<open>Key forwarding is a stub in the code: it always fails.\<close>

definition ProxyWithKeyForwarding :: "state_ptr \<Rightarrow> string" where
  "ProxyWithKeyForwarding state = ''not yet implemented''"

section \<open>What a connection rests on\<close>

lemma getHostKeyCallback_cases:
  "getHostKeyCallback W state = Inr cb \<longleftrightarrow>
     (\<exists>home. HomeDir W = Some home
        \<and> (if hostKeyVerificationDisabled W state then cb = InsecureIgnoreHostKeys
           else KnownHostsOk W (filepath_Join [home, ''.ssh'', ''known_hosts''])
             \<and> cb = KnownHosts (filepath_Join [home, ''.ssh'', ''known_hosts''])))"
  by (auto simp: getHostKeyCallback_def Let_def split: option.splits if_splits)

text \<open>
  C28. Host key checks fail closed. A connection to a target is only ever dialled with the
  verifier that the user's \<open>known_hosts\<close> file gives, loaded without error, unless the
  operator switched verification off by the start-up flag or by the environment variable; a
  missing or damaged file is an error, never a connection without a check.
\<close>

theorem host_keys_fail_closed:
  assumes "ConnectToTarget W state u h p = Inr client"
  shows "\<exists>cfg. Dial W (JoinHostPort h p) cfg = Some client \<and> cfgUser cfg = u \<and> cfgTimeout cfg > 0
    \<and> (\<exists>home. HomeDir W = Some home
        \<and> (hostKeyVerificationDisabled W state \<and> cfgHostKeyCallback cfg = InsecureIgnoreHostKeys
           \<or> \<not> hostKeyVerificationDisabled W state
             \<and> KnownHostsOk W (filepath_Join [home, ''.ssh'', ''known_hosts''])
             \<and> cfgHostKeyCallback cfg = KnownHosts (filepath_Join [home, ''.ssh'', ''known_hosts''])))"
proof -
  from assms obtain auth cb where cb: "getHostKeyCallback W state = Inr cb"
    and dial: "Dial W (JoinHostPort h p) \<lparr>cfgUser = u, cfgAuth = auth, cfgHostKeyCallback = cb,
        cfgTimeout = (case state of None \<Rightarrow> seconds 10
             | Some st \<Rightarrow> if ConnectTimeout st > 0 then ConnectTimeout st else seconds 10)\<rparr> = Some client"
    by (auto simp: ConnectToTarget_def try_bind_eq_Inr Let_def split: option.splits)
  have "seconds 10 > 0" by (simp add: seconds_small)
  then have "(case state of None \<Rightarrow> seconds 10
      | Some st \<Rightarrow> if ConnectTimeout st > 0 then ConnectTimeout st else seconds 10) > 0"
    by (auto split: option.splits)
  with dial obtain cfg where cfg: "Dial W (JoinHostPort h p) cfg = Some client" "cfgUser cfg = u"
    "cfgTimeout cfg > 0" "cfgHostKeyCallback cfg = cb" by fastforce
  from cb obtain home where "HomeDir W = Some home"
    "hostKeyVerificationDisabled W state \<and> cb = InsecureIgnoreHostKeys
     \<or> \<not> hostKeyVerificationDisabled W state \<and> KnownHostsOk W (filepath_Join [home, ''.ssh'', ''known_hosts''])
       \<and> cb = KnownHosts (filepath_Join [home, ''.ssh'', ''known_hosts''])"
    unfolding getHostKeyCallback_cases by (auto split: if_splits)
  with cfg show ?thesis by blast
qed

lemma GetAgentSigner_InrD:
  assumes "GetAgentSigner W state = Inr signer"
  shows "\<exists>ag more. GetSSHAgentConn W state = Inr (Some ag) \<and> AgentSigners W ag = Some (signer # more)"
  using assms
  by (cases "GetSSHAgentConn W state")
     (auto simp: GetAgentSigner_def split: if_splits option.splits list.splits)

text \<open>
  C29. The proxy authenticates to targets only with the user's own forwarded agent. A connection
  needs a session state with an agent: the one of an agent channel the client opened, or else a
  channel opened on the client's own connection after the client asked for forwarding; and it is
  dialled with exactly one signer, the first the agent offers.
\<close>

theorem signs_with_forwarded_agent:
  assumes "ConnectToTarget W state u h p = Inr client"
  shows "\<exists>cfg ag signer more. Dial W (JoinHostPort h p) cfg = Some client \<and> cfgAuth cfg = [signer]
    \<and> AgentSigners W ag = Some (signer # more)
    \<and> (GetAgentClient state = Some ag
       \<or> GetAgentClient state = None \<and> IsAgentRequested state
         \<and> (\<exists>conn. ClientConnValue state = Some conn \<and> OpenAgentChannel W conn = Some ag))"
proof -
  from assms obtain signer cfg where "GetAgentSigner W state = Inr signer"
    and dial: "Dial W (JoinHostPort h p) cfg = Some client" "cfgAuth cfg = [signer]"
    by (fastforce simp: ConnectToTarget_def authMethodForClient_def try_bind_eq_Inr Let_def split: option.splits)
  then obtain ag more where ag: "GetSSHAgentConn W state = Inr (Some ag)" "AgentSigners W ag = Some (signer # more)"
    using GetAgentSigner_InrD by blast
  then have "GetAgentClient state = Some ag
       \<or> GetAgentClient state = None \<and> IsAgentRequested state
         \<and> (\<exists>conn. ClientConnValue state = Some conn \<and> OpenAgentChannel W conn = Some ag)"
    by (auto simp: GetSSHAgentConn_def split: if_splits option.splits bool.splits)
  with dial ag show ?thesis by blast
qed

text \<open>The authorities that are configured for host certificates play no part in the decision.\<close>

lemma host_cas_unused:
  "ConnectToTarget W (map_option (\<lambda>st. st\<lparr>TrustedHostCASerts := cas\<rparr>) state) u h p = ConnectToTarget W state u h p"
proof (cases state)
  case (Some st)
  let ?s = "map_option (\<lambda>st. st\<lparr>TrustedHostCASerts := cas\<rparr>) state"
  have "GetAgentClient ?s = GetAgentClient state" "IsAgentRequested ?s = IsAgentRequested state"
    "ClientConnValue ?s = ClientConnValue state" "hostKeyVerificationDisabled W ?s = hostKeyVerificationDisabled W state"
    "?s = None \<longleftrightarrow> state = None"
    by (simp_all add: Some GetAgentClient_def IsAgentRequested_def ClientConnValue_def hostKeyVerificationDisabled_def)
  then have "authMethodForClient W ?s = authMethodForClient W state"
    "getHostKeyCallback W ?s = getHostKeyCallback W state"
    by (simp_all only: authMethodForClient_def GetAgentSigner_def GetSSHAgentConn_def getHostKeyCallback_def)
  moreover have "(case ?s of None \<Rightarrow> seconds 10 | Some st \<Rightarrow> if ConnectTimeout st > 0 then ConnectTimeout st else seconds 10)
      = (case state of None \<Rightarrow> seconds 10 | Some st \<Rightarrow> if ConnectTimeout st > 0 then ConnectTimeout st else seconds 10)"
    by (simp add: Some)
  ultimately show ?thesis by (simp only: ConnectToTarget_def)
qed simp

section \<open>The bidirectional proxy\<close>

text \<open>
  The two goroutines of \<open>BidiProxy\<close> read from different channels and share the recorder. A run
  is the sequence of results their \<open>Read\<close> calls return, in the order in which they are handled;
  a direction that has ended handles nothing more.
\<close>

datatype direction = FromTarget | FromClient

record bidi =
  clientChan :: os_file
  targetChan :: os_file
  bidi_recorder :: "recorder option"
  end1 :: copy_end
  end2 :: copy_end

text \<open>
  The end of a direction after a chunk: the write error comes first, then the read error; the
  end of file is no error.
\<close>

definition direction_end :: "bool \<Rightarrow> read_end option \<Rightarrow> copy_end" where
  "direction_end written e =
     (if \<not> written then SinkFailed
      else (case e of None \<Rightarrow> StillReading | Some EOF \<Rightarrow> Finished | Some ReadError \<Rightarrow> SourceFailed))"

fun bidi_step :: "clock_format \<Rightarrow> recorder_kind \<Rightarrow> direction \<times> read_event \<Rightarrow> bidi \<Rightarrow> bidi" where
  "bidi_step F k (FromTarget, p, t, e) b =
     (if end1 b \<noteq> StillReading then b
      else if p = [] then b\<lparr>end1 := direction_end True e\<rparr>
      else
        (let rc = map_option (\<lambda>s. snd (Recorder_Write F k p t s)) (bidi_recorder b);
             (ok, dst) = file_write p (clientChan b)
         in b\<lparr>bidi_recorder := rc, clientChan := dst, end1 := direction_end ok e\<rparr>))"
| "bidi_step F k (FromClient, p, t, e) b =
     (if end2 b \<noteq> StillReading then b
      else if p = [] then b\<lparr>end2 := direction_end True e\<rparr>
      else
        (let rc = map_option (\<lambda>s. snd (Recorder_WriteInput F k p t s)) (bidi_recorder b);
             (ok, dst) = file_write p (targetChan b)
         in b\<lparr>bidi_recorder := rc, targetChan := dst, end2 := direction_end ok e\<rparr>))"

definition copy_error :: "copy_end \<Rightarrow> copy_end option" where
  "copy_error e = (if e = SinkFailed \<or> e = SourceFailed then Some e else None)"

text \<open>
  The result of \<open>BidiProxy\<close>, \<open>None\<close> while a goroutine is still running: the first direction's
  error if it has one, else the second's.
\<close>

definition BidiProxy ::
  "clock_format \<Rightarrow> recorder_kind \<Rightarrow> (direction \<times> read_event) list \<Rightarrow> os_file \<Rightarrow> os_file \<Rightarrow> recorder option
     \<Rightarrow> bidi \<times> copy_end option option" where
  "BidiProxy F k events clientOut targetOut rc =
     (let b = fold (bidi_step F k) events \<lparr>clientChan = clientOut, targetChan = targetOut,
            bidi_recorder = rc, end1 = StillReading, end2 = StillReading\<rparr>
      in (b, if end1 b = StillReading \<or> end2 b = StillReading then None
             else Some (case copy_error (end1 b) of Some e \<Rightarrow> Some e | None \<Rightarrow> copy_error (end2 b))))"

fun written_bytes :: "rec_op list \<Rightarrow> bytes" where
  "written_bytes [] = []"
| "written_bytes (OpWrite d t # ops) = d @ written_bytes ops"
| "written_bytes (op # ops) = written_bytes ops"

fun input_bytes :: "rec_op list \<Rightarrow> bytes" where
  "input_bytes [] = []"
| "input_bytes (OpInput d t # ops) = d @ input_bytes ops"
| "input_bytes (op # ops) = input_bytes ops"

lemma op_bytes_append [simp]:
  "written_bytes (xs @ ys) = written_bytes xs @ written_bytes ys"
  "input_bytes (xs @ ys) = input_bytes xs @ input_bytes ys"
  by (induction xs rule: written_bytes.induct; simp)
     (induction xs rule: input_bytes.induct; simp)

text \<open>What one channel received, against what the recorder was given for it.\<close>

definition covered :: "bytes \<Rightarrow> os_file \<Rightarrow> copy_end \<Rightarrow> bytes \<Rightarrow> bool" where
  "covered before f e log \<longleftrightarrow>
     prefix (fdata f) (before @ log) \<and> (e \<noteq> SinkFailed \<longrightarrow> fdata f = before @ log)"

lemma covered_write:
  assumes "covered before f StillReading log" "file_write p f = (ok, f')"
  shows "covered before f' (direction_end ok e) (log @ p)"
proof -
  have f: "fdata f = before @ log" using assms(1) by (simp add: covered_def)
  from assms(2) have f': "fdata f' = fdata f @ take (fspace f) p" "ok \<longleftrightarrow> length p \<le> fspace f"
    by (auto simp: file_write_def)
  have "ok \<or> direction_end ok e = SinkFailed" by (simp add: direction_end_def)
  with f f' show ?thesis by (auto simp: covered_def take_is_prefix)
qed

lemma covered_end: "covered before f StillReading log \<Longrightarrow> covered before f e log"
  by (simp add: covered_def)

definition bidi_inv :: "clock_format \<Rightarrow> recorder_kind \<Rightarrow> recorder \<Rightarrow> bytes \<Rightarrow> bytes \<Rightarrow> rec_op list \<Rightarrow> bidi \<Rightarrow> bool" where
  "bidi_inv F k s c0 t0 ops b \<longleftrightarrow>
     bidi_recorder b = Some (run_recorder F k ops s)
     \<and> covered c0 (clientChan b) (end1 b) (written_bytes ops)
     \<and> covered t0 (targetChan b) (end2 b) (input_bytes ops)"

lemma bidi_inv_step:
  assumes "bidi_inv F k s c0 t0 ops b"
  shows "\<exists>more. bidi_inv F k s c0 t0 (ops @ more) (bidi_step F k ev b)"
proof -
  obtain d p t e where ev: "ev = (d, p, t, e)" by (cases ev) auto
  note run = recorder.run_append [of F k ops]
  show ?thesis
  proof (cases d)
    case FromTarget
    show ?thesis
    proof (cases "end1 b \<noteq> StillReading \<or> p = []")
      case True
      with assms ev FromTarget show ?thesis
        by (intro exI [of _ "[]"]) (auto simp: bidi_inv_def direction_end_def covered_end)
    next
      case False
      obtain ok dst where w: "file_write p (clientChan b) = (ok, dst)" by fastforce
      from False assms have "covered c0 (clientChan b) StillReading (written_bytes ops)" by (simp add: bidi_inv_def)
      from covered_write [OF this w] assms ev FromTarget False w show ?thesis
        by (intro exI [of _ "[OpWrite p t]"]) (simp add: bidi_inv_def run Let_def)
    qed
  next
    case FromClient
    show ?thesis
    proof (cases "end2 b \<noteq> StillReading \<or> p = []")
      case True
      with assms ev FromClient show ?thesis
        by (intro exI [of _ "[]"]) (auto simp: bidi_inv_def direction_end_def covered_end)
    next
      case False
      obtain ok dst where w: "file_write p (targetChan b) = (ok, dst)" by fastforce
      from False assms have "covered t0 (targetChan b) StillReading (input_bytes ops)" by (simp add: bidi_inv_def)
      from covered_write [OF this w] assms ev FromClient False w show ?thesis
        by (intro exI [of _ "[OpInput p t]"]) (simp add: bidi_inv_def run Let_def)
    qed
  qed
qed

lemma bidi_inv_fold:
  "bidi_inv F k s c0 t0 ops b \<Longrightarrow> \<exists>more. bidi_inv F k s c0 t0 (ops @ more) (fold (bidi_step F k) events b)"
proof (induction events arbitrary: ops b)
  case Nil
  then show ?case by (intro exI [of _ "[]"]) simp
next
  case (Cons ev events)
  from bidi_inv_step [OF Cons.prems] obtain m1 where "bidi_inv F k s c0 t0 (ops @ m1) (bidi_step F k ev b)" by blast
  from Cons.IH [OF this] obtain m2 where "bidi_inv F k s c0 t0 ((ops @ m1) @ m2) (fold (bidi_step F k) (ev # events) b)" by auto
  then show ?case by (intro exI [of _ "m1 @ m2"]) simp
qed

text \<open>
  \<open>BidiProxy\<close> records before it forwards, for every interleaving of its two directions: what
  each side received is a beginning of what the recorder was given for it, and all of it unless
  writing to that side failed; the recorder saw the chunks of both directions in one order.
\<close>

lemma bidi_records_first:
  "\<exists>ops. let b = fst (BidiProxy F k events clientOut targetOut (Some s)) in
     bidi_recorder b = Some (run_recorder F k ops s)
     \<and> prefix (fdata (clientChan b)) (fdata clientOut @ written_bytes ops)
     \<and> (end1 b = SinkFailed \<or> fdata (clientChan b) = fdata clientOut @ written_bytes ops)
     \<and> prefix (fdata (targetChan b)) (fdata targetOut @ input_bytes ops)
     \<and> (end2 b = SinkFailed \<or> fdata (targetChan b) = fdata targetOut @ input_bytes ops)"
proof -
  let ?b = "\<lparr>clientChan = clientOut, targetChan = targetOut, bidi_recorder = Some s,
      end1 = StillReading, end2 = StillReading\<rparr>"
  have "bidi_inv F k s (fdata clientOut) (fdata targetOut) [] ?b" by (simp add: bidi_inv_def covered_def)
  from bidi_inv_fold [OF this, of events] show ?thesis
    by (auto simp: BidiProxy_def bidi_inv_def covered_def Let_def)
qed

section \<open>A concrete world\<close>

definition sample_client_world :: client_world where
  "sample_client_world = \<lparr>Getenv = (\<lambda>_. []), HomeDir = Some ''/home/proxy'',
     KnownHostsOk = (\<lambda>p. p = ''/home/proxy/.ssh/known_hosts''),
     OpenAgentChannel = (\<lambda>_. Some 7), AgentSigners = (\<lambda>_. Some [1, 2]), Dial = (\<lambda>_ _. Some 9)\<rparr>"

definition sample_state :: state_ptr where
  "sample_state = Some (zero_state\<lparr>AgentRequested := True, ClientConn := Some 3\<rparr>)"

lemma sample_connect: "ConnectToTarget sample_client_world sample_state ''alice'' ''db'' ''22'' = Inr 9"
  by code_simp

lemma host_keys_fail_closed_witness:
  "\<exists>cfg. Dial sample_client_world (JoinHostPort ''db'' ''22'') cfg = Some 9 \<and> cfgUser cfg = ''alice''
    \<and> cfgHostKeyCallback cfg \<noteq> InsecureIgnoreHostKeys"
proof -
  have "\<not> hostKeyVerificationDisabled sample_client_world sample_state" by code_simp
  with host_keys_fail_closed [OF sample_connect] show ?thesis by auto
qed

lemma signs_with_forwarded_agent_witness:
  "\<exists>cfg. Dial sample_client_world (JoinHostPort ''db'' ''22'') cfg = Some 9 \<and> cfgAuth cfg = [1]"
  using signs_with_forwarded_agent [OF sample_connect] by (auto simp: sample_client_world_def)

end
