(* ===== verification/Session.thy ===== *)
theory Session
  imports Wire Metrics SSO Routing File_Names Client
begin

text \<open>
  \<open>internal/server/server.go\<close>: one session of a connection. The second factor
  (\<open>ensureSSOAuthentication\<close>), the proxied session with its deferred clean-up
  (\<open>proxySession\<close>, \<open>finalizeRemoteSession\<close>), and the shell and exec handlers. Calls on SSH objects, the file system, the clock and
  the random identifiers are the fields of \<open>session_world\<close>; what the proxy does to the client's
  channel and to the target is a list of events.
\<close>

section \<open>Events and the world\<close>

datatype sso_check_error =
    FlowFailed sso_error | NoUsableIdentity string | IdentityMismatch string string

datatype proxy_error =
    RouteFailed route_error | ConnectionFailed "client_error connect_error" | NewSessionFailed
  | MkdirFailed | ChmodFailed | RecorderFailed new_recorder_error
  | StdinFailed | StdoutFailed | StderrFailed | PtyFailed | ShellFailed | StartFailed | WaitFailed

datatype session_error = SSOError sso_check_error | ProxyError proxy_error | DirectCommandsDisabled

datatype event =
    Connected handle string string string | ClientClosed handle
  | SessionOpened handle | SessionClosed handle
  | RecorderOpened string recorder_kind bool | RecorderClosed string
  | EnvSent string string | PtyRequested string int int
  | CopyLoopsStarted "handle option"
  | ShellStarted handle | CommandStarted handle string
  | SSOLine string | ErrorShown session_error | ExitStatus u32 | CloseWrite | CloseChannel
  | WindowForwarded handle int int

datatype wait_result = ExitedZero | ExitError int | OtherWaitError

record session_world =
  wConnect :: "client_error connector"
  wNewSession :: "handle \<Rightarrow> handle option"
  wMkdirAll :: "string \<Rightarrow> bool"
  wChmod :: "string \<Rightarrow> bool"
  wOpenFile :: "string \<Rightarrow> bool"
  wFile :: "string \<Rightarrow> os_file"
  wNow :: int
  wRecordingID :: string
  wSessionID :: string
  wRecorderHandle :: handle
  wPipes :: "bool \<times> bool \<times> bool"
  wRequestPty :: "string \<Rightarrow> int \<Rightarrow> int \<Rightarrow> bool"
  wShell :: bool
  wStart :: "string \<Rightarrow> bool"
  wWait :: wait_result

text \<open>
  What a handler works on: the shared state, the metrics, the network, the route counter, what it
  did to the outside, and the panic that ended the process, if one did.
\<close>

record proxy_ctx =
  xState :: state_ptr
  xMetrics :: "collector option"
  xNet :: net_state
  xCounter :: u64
  xEvents :: "event list"
  xPanic :: "panic option"

definition emit :: "event list \<Rightarrow> proxy_ctx \<Rightarrow> proxy_ctx" where
  "emit es x = x\<lparr>xEvents := xEvents x @ es\<rparr>"

definition measured :: "(collector option \<Rightarrow> collector option) \<Rightarrow> proxy_ctx \<Rightarrow> proxy_ctx" where
  "measured f x = x\<lparr>xMetrics := f (xMetrics x)\<rparr>"

section \<open>The second factor\<close>

text \<open>The package variable \<open>runSSODeviceAuth\<close>, with the text it prints.\<close>

type_synonym device_auth = "sso_config \<Rightarrow> net_state \<Rightarrow> (sso_error + identity) \<times> net_state \<times> string list"

text \<open>Its initial value: the device flow, which always returns.\<close>

definition runSSODeviceAuth :: "unicode \<Rightarrow> sso_env \<Rightarrow> device_auth" where
  "runSSODeviceAuth U E cfg ns = the (AuthenticateDeviceFlow U E cfg True ns)"

definition sso_config_of :: "session_state \<Rightarrow> sso_config" where
  "sso_config_of st = \<lparr>cfgEnabled = SSOEnabled st, cfgProvider = SSOProvider st, cfgBaseURL = SSOBaseURL st,
     cfgRealm = SSORealm st, cfgClientID = SSOClientID st, cfgClientSecret = SSOClientSecret st,
     cfgScope = SSOScope st, cfgAuthTimeout = SSOAuthTimeout st, cfgPollInterval = SSOPollInterval st,
     cfgRequestTimeout = SSORequestTimeout st, cfgEnforceUserMatch = False,
     cfgInsecureSkipVerify = SSOInsecureSkipVerify st\<rparr>"

definition sso_client_user :: "state_ptr \<Rightarrow> string" where
  "sso_client_user state =
     (if TrimSpace (ClientUserValue state) \<noteq> [] then ClientUserValue state else ''unknown'')"

definition ensureSSOAuthentication ::
  "unicode \<Rightarrow> device_auth \<Rightarrow> proxy_ctx \<Rightarrow> (sso_check_error + unit) \<times> proxy_ctx" where
  "ensureSSOAuthentication U auth x =
     (case xState x of
        None \<Rightarrow> (Inr (), x)
      | Some st \<Rightarrow>
          if \<not> SSOEnabled st \<or> IsSSOVerified (xState x) then (Inr (), x)
          else
            (let clientUser = sso_client_user (xState x);
                 x = measured SSOWaitingStarted x;
                 (result, ns, lines) = auth (sso_config_of st) (xNet x);
                 x = emit (map SSOLine lines) (x\<lparr>xNet := ns\<rparr>);
                 failed = (\<lambda>x. measured SSOWaitingFinished
                   (measured RecordSSOError (measured (RecordSSOConfirmation U ''failure'') x)))
             in case result of
                  Inl e \<Rightarrow> (Inl (FlowFailed e), failed x)
                | Inr identity \<Rightarrow>
                    if SSOEnforceUserMatch st \<and> \<not> MatchesSSHUser U identity clientUser then
                      (Inl (if BestIdentifier identity = [] then NoUsableIdentity clientUser
                            else IdentityMismatch (BestIdentifier identity) clientUser), failed x)
                    else
                      (Inr (), measured SSOWaitingFinished (measured (RecordSSOConfirmation U ''success'')
                         (x\<lparr>xState := SetSSOVerified (xState x) True\<rparr>)))))"

section \<open>The proxied session\<close>

definition env_events :: "(string \<times> string) list option \<Rightarrow> event list" where
  "env_events envVars =
     (case envVars of None \<Rightarrow> []
      | Some m \<Rightarrow> map (\<lambda>(n, v). EnvSent n v) (filter (\<lambda>(n, v). n \<noteq> ''LC_SSH_SERVER'') m))"

definition closeClientSession :: "event list" where
  "closeClientSession = [CloseWrite, CloseChannel]"

definition sendExitStatus :: "u32 \<Rightarrow> event list" where
  "sendExitStatus code = [ExitStatus code]"

definition finalizeRemoteSession :: "wait_result \<Rightarrow> proxy_error option \<times> event list" where
  "finalizeRemoteSession result =
     (case result of
        ExitedZero \<Rightarrow> (None, sendExitStatus 0 @ closeClientSession)
      | ExitError status \<Rightarrow> (None, sendExitStatus (word_of_int status) @ closeClientSession)
      | OtherWaitError \<Rightarrow> (Some WaitFailed, sendExitStatus 1 @ closeClientSession))"

definition pty_size :: "int \<Rightarrow> int \<Rightarrow> int" where
  "pty_size value fallback = (if value = 0 then fallback else value)"

text \<open>From the pipes to the end of the session, with the recorder in place.\<close>

definition run_remote ::
  "session_world \<Rightarrow> state_ptr \<Rightarrow> handle \<Rightarrow> string \<Rightarrow> proxy_error option \<times> event list" where
  "run_remote W state session command =
     (let (stdin, stdout, stderr) = wPipes W in
      if \<not> stdin then (Some StdinFailed, [])
      else if \<not> stdout then (Some StdoutFailed, [])
      else if \<not> stderr then (Some StderrFailed, [])
      else
        (let env = env_events (EnvVarsSnapshot state);
             (term, cols, rows) = PTY state;
             (cols, rows) = (pty_size cols 80, pty_size rows 24);
             pty = (if term \<noteq> [] then [PtyRequested term rows cols] else [])
         in if term \<noteq> [] \<and> \<not> wRequestPty W term rows cols then (Some PtyFailed, env @ pty)
            else
              (let pre = env @ pty @ [CopyLoopsStarted (RecorderValue state)] in
               if command = [] then
                 (if \<not> wShell W then (Some ShellFailed, pre)
                  else (case finalizeRemoteSession (wWait W) of
                      (err, es) \<Rightarrow> (err, pre @ ShellStarted session # es)))
               else
                 (if \<not> wStart W command then (Some StartFailed, pre)
                  else (case finalizeRemoteSession (wWait W) of
                      (err, es) \<Rightarrow> (err, pre @ CommandStarted session command # es))))))"

definition recordings_dir :: "session_state \<Rightarrow> string" where
  "recordings_dir st = (if TrimSpace (RecordingsDir st) = [] then ''recordings'' else RecordingsDir st)"

text \<open>
  The recording part; the recorder is detached and closed when it is done. A nil state is
  dereferenced for the recording format. What is open at a panic is closed by the deferred calls.
\<close>

definition with_recording ::
  "unicode \<Rightarrow> clock_format \<Rightarrow> session_world \<Rightarrow> state_ptr \<Rightarrow> handle \<Rightarrow> string \<Rightarrow> string \<Rightarrow> string \<Rightarrow> string
     \<Rightarrow> proxy_error option outcome \<times> state_ptr \<times> event list" where
  "with_recording U F W state session user host port command =
     (case state of
        None \<Rightarrow> (Panics NilDereference, state, [])
      | Some st \<Rightarrow>
          (let format = NormalizeFormat U (RecordingFormat st);
               name = buildRecordingFileName U user host port (wRecordingID W) format;
               dir = recordings_dir st;
               path = filepath_Join [dir, name] in
           if \<not> wMkdirAll W dir then (Returns (Some MkdirFailed), state, [])
           else if \<not> wChmod W dir then (Returns (Some ChmodFailed), state, [])
           else (case NewRecorder U F format (wOpenFile W path) (wNow W) (wSessionID W) (wFile W path) of
               Inl e \<Rightarrow> (Returns (Some (RecorderFailed e)), state, [])
             | Inr (kind, r) \<Rightarrow>
                 (let state = SetRecorder state (Some (wRecorderHandle W));
                      (err, es) = run_remote W state session command
                  in (Returns err, SetRecorder state None,
                      RecorderOpened path kind (rec_enabled (fst r)) # es @ [RecorderClosed path])))))"

definition with_session ::
  "unicode \<Rightarrow> clock_format \<Rightarrow> session_world \<Rightarrow> state_ptr \<Rightarrow> handle \<Rightarrow> string \<Rightarrow> string \<Rightarrow> string \<Rightarrow> string
     \<Rightarrow> proxy_error option outcome \<times> state_ptr \<times> event list" where
  "with_session U F W state client user host port command =
     (case wNewSession W client of
        None \<Rightarrow> (Returns (Some NewSessionFailed), state, [])
      | Some session \<Rightarrow>
          (let state = SetTargetSession state (Some session);
               (err, state, es) = with_recording U F W state session user host port command
           in (err, SetTargetSession state None, SessionOpened session # es @ [SessionClosed session])))"

definition proxySession ::
  "unicode \<Rightarrow> clock_format \<Rightarrow> session_world \<Rightarrow> string \<Rightarrow> string \<Rightarrow> proxy_ctx \<Rightarrow> proxy_error option outcome \<times> proxy_ctx" where
  "proxySession U F W targetAddr command x =
     (case resolveTargetCandidates U (xCounter x) (xState x) targetAddr command of
        (Panics p, c) \<Rightarrow> (Panics p, x\<lparr>xCounter := c\<rparr>)
      | (Returns (Inl e), c) \<Rightarrow> (Returns (Some (RouteFailed e)), x\<lparr>xCounter := c\<rparr>)
      | (Returns (Inr targets), c) \<Rightarrow>
          (let x = x\<lparr>xCounter := c\<rparr> in
           case connectToFirstAvailableTarget U (wConnect W) (xState x) targets of
             (state, Panics p) \<Rightarrow> (Panics p, x\<lparr>xState := state\<rparr>)
           | (state, Returns (Inl e)) \<Rightarrow> (Returns (Some (ConnectionFailed e)), x\<lparr>xState := state\<rparr>)
           | (state, Returns (Inr (client, user, host, port))) \<Rightarrow>
               (let state = SetTarget (SetTargetClient state (Some client)) user host port;
                    (err, state, es) = with_session U F W state client user host port command
                in (err, emit (Connected client user host port # es @ [ClientClosed client])
                     (x\<lparr>xState := SetTargetClient state None\<rparr>)))))"

section \<open>The handlers\<close>

definition show_failure :: "session_error \<Rightarrow> event list" where
  "show_failure e = [ErrorShown e, ExitStatus 1] @ closeClientSession"

text \<open>How a handler goes on after \<open>proxySession\<close>; a panic leaves nothing more to do.\<close>

definition session_result :: "unicode \<Rightarrow> proxy_error option outcome \<times> proxy_ctx \<Rightarrow> proxy_ctx" where
  "session_result U result =
     (case result of
        (Panics p, x) \<Rightarrow> x\<lparr>xPanic := Some p\<rparr>
      | (Returns (Some e), x) \<Rightarrow> emit (show_failure (ProxyError e)) (measured (RecordProxySession U ''failure'') x)
      | (Returns None, x) \<Rightarrow> measured (RecordProxySession U ''success'') x)"

definition handleShellProxy ::
  "unicode \<Rightarrow> device_auth \<Rightarrow> clock_format \<Rightarrow> session_world \<Rightarrow> proxy_ctx \<Rightarrow> proxy_ctx" where
  "handleShellProxy U auth F W x =
     (case ensureSSOAuthentication U auth x of
        (Inl e, x) \<Rightarrow> emit (show_failure (SSOError e)) (measured (RecordProxySession U ''failure'') x)
      | (Inr _, x) \<Rightarrow> session_result U (proxySession U F W [] [] x))"

definition handleExecProxy ::
  "unicode \<Rightarrow> device_auth \<Rightarrow> clock_format \<Rightarrow> session_world \<Rightarrow> string \<Rightarrow> proxy_ctx \<Rightarrow> proxy_ctx" where
  "handleExecProxy U auth F W command x =
     (case xState x of
        None \<Rightarrow> x\<lparr>xPanic := Some NilDereference\<rparr>
      | Some st \<Rightarrow>
          if \<not> AllowDirectCommands st then
            emit (show_failure DirectCommandsDisabled) (measured (RecordProxySession U ''rejected'') x)
          else (case ensureSSOAuthentication U auth x of
              (Inl e, x) \<Rightarrow> emit (show_failure (SSOError e)) (measured (RecordProxySession U ''failure'') x)
            | (Inr _, x) \<Rightarrow> session_result U (proxySession U F W [] command x)))"

section \<open>What the handlers leave alone\<close>

lemma ctx_simps [simp]:
  "xState (emit es x) = xState x" "xEvents (emit es x) = xEvents x @ es" "xMetrics (emit es x) = xMetrics x"
  "xCounter (emit es x) = xCounter x" "xNet (emit es x) = xNet x"
  "xState (measured f x) = xState x" "xEvents (measured f x) = xEvents x" "xMetrics (measured f x) = f (xMetrics x)"
  "xCounter (measured f x) = xCounter x" "xNet (measured f x) = xNet x"
  "xPanic (emit es x) = xPanic x" "xPanic (measured f x) = xPanic x"
  by (simp_all add: emit_def measured_def)

lemma session_result_simps [simp]:
  "xState (session_result U (r, x)) = xState x" "xCounter (session_result U (r, x)) = xCounter x"
  by (auto simp: session_result_def split: outcome.split option.split)

lemma try_targets_state:
  "try_targets U connect ts (s, n, fs) = ((s', n', fs'), r) \<Longrightarrow> s' = s \<or> (\<exists>u h p. s' = SetTarget s u h p)"
proof (induction ts arbitrary: s n fs)
  case (Cons t ts)
  show ?case
  proof (cases "resolveTargetAddress U t (ClientUserValue s)")
    case (Inl e)
    with Cons show ?thesis by auto
  next
    case (Inr r)
    obtain u h p where "r = (u, h, p)" by (cases r) auto
    with Inr Cons.prems Cons.IH show ?thesis
      by (fastforce simp: Let_def split: sum.splits)
  qed
qed simp

lemma try_rounds_state:
  "try_rounds U connect k ts (s, n, fs) = ((s', n', fs'), r) \<Longrightarrow> s' = s \<or> (\<exists>u h p. s' = SetTarget s u h p)"
proof (induction k arbitrary: s n fs)
  case (Suc k)
  obtain s1 n1 fs1 r1 where t: "try_targets U connect ts (s, n, fs) = ((s1, n1, fs1), r1)"
    by (cases "try_targets U connect ts (s, n, fs)") auto
  show ?case
  proof (cases r1)
    case None
    with Suc.prems t have "try_rounds U connect k ts (s1, n1, fs1) = ((s', n', fs'), r)" by simp
    from Suc.IH [OF this] try_targets_state [OF t] show ?thesis by (metis SetTarget_twice)
  next
    case (Some c)
    with Suc.prems t try_targets_state [OF t] show ?thesis by simp
  qed
qed simp

lemma connect_state:
  "connectToFirstAvailableTarget U connect s ts = (s', r) \<Longrightarrow> s' = s \<or> (\<exists>u h p. s' = SetTarget s u h p)"
  by (auto simp: connectToFirstAvailableTarget_def split: if_splits prod.splits option.splits
      dest: try_rounds_state)

lemma with_session_state:
  assumes "with_session U F W s client u h p cmd = (err, s', es)"
  shows "s' = s \<or> s' = SetTargetSession s None \<or> s' = SetRecorder (SetTargetSession s None) None"
  using assms
  by (cases s)
     (auto simp: with_session_def with_recording_def Let_def SetTargetSession_def SetRecorder_def
       split: option.splits if_splits sum.splits prod.splits)

text \<open>How a proxied session can go.\<close>

lemma proxySession_cases:
  assumes "proxySession U F W a cmd x = (err, x')"
  obtains (panic) p c where "resolveTargetCandidates U (xCounter x) (xState x) a cmd = (Panics p, c)"
      "err = Panics p" "x' = x\<lparr>xCounter := c\<rparr>"
  | (unrouted) e c where "resolveTargetCandidates U (xCounter x) (xState x) a cmd = (Returns (Inl e), c)"
      "err = Returns (Some (RouteFailed e))" "x' = x\<lparr>xCounter := c\<rparr>"
  | (unconnected) c ts s1 q where "resolveTargetCandidates U (xCounter x) (xState x) a cmd = (Returns (Inr ts), c)"
      "connectToFirstAvailableTarget U (wConnect W) (xState x) ts = (s1, q)"
      "(\<exists>p. q = Panics p \<and> err = Panics p) \<or> (\<exists>e. q = Returns (Inl e) \<and> err = Returns (Some (ConnectionFailed e)))"
      "x' = x\<lparr>xCounter := c, xState := s1\<rparr>"
  | (session) c ts s1 client u h p s2 es where "resolveTargetCandidates U (xCounter x) (xState x) a cmd = (Returns (Inr ts), c)"
      "connectToFirstAvailableTarget U (wConnect W) (xState x) ts = (s1, Returns (Inr (client, u, h, p)))"
      "with_session U F W (SetTarget (SetTargetClient s1 (Some client)) u h p) client u h p cmd = (err, s2, es)"
      "x' = emit (Connected client u h p # es @ [ClientClosed client]) (x\<lparr>xCounter := c, xState := SetTargetClient s2 None\<rparr>)"
  using assms
  by (auto simp: proxySession_def Let_def split: prod.splits outcome.splits sum.splits)

text \<open>The fields that gate a session: the second factor and the direct commands.\<close>

definition gates :: "state_ptr \<Rightarrow> bool \<times> bool \<times> bool" where
  "gates s = (case s of None \<Rightarrow> (False, False, True)
     | Some st \<Rightarrow> (AllowDirectCommands st, SSOEnabled st, SSOVerified st))"

lemma gates_setters [simp]:
  "gates (SetTarget s u h p) = gates s" "gates (SetTargetClient s c) = gates s"
  "gates (SetTargetSession s c) = gates s" "gates (SetRecorder s c) = gates s"
  by (cases s; simp add: gates_def accessor_simps)+

lemma proxySession_gates: "proxySession U F W a cmd x = (err, x') \<Longrightarrow> gates (xState x') = gates (xState x)"
proof (elim proxySession_cases, goal_cases)
  case (4 c ts s1 client u h p s2 es)
  then show ?case using with_session_state [OF 4(3)] connect_state [OF 4(2)] by auto
qed (auto dest: connect_state)

section \<open>The second factor is a gate\<close>

lemma ensure_SSO_cases:
  "case ensureSSOAuthentication U auth x of
     (Inl e, x') \<Rightarrow> xState x' = xState x \<and> \<not> IsSSOVerified (xState x')
   | (Inr _, x') \<Rightarrow>
       xState x' = xState x \<and> (xState x = None \<or> \<not> SSOEnabled (the (xState x)) \<or> IsSSOVerified (xState x))
       \<or> (\<exists>st i ns lines. xState x = Some st \<and> SSOEnabled st \<and> auth (sso_config_of st) (xNet x) = (Inr i, ns, lines)
           \<and> (\<not> SSOEnforceUserMatch st \<or> MatchesSSHUser U i (sso_client_user (xState x)))
           \<and> xState x' = SetSSOVerified (xState x) True)"
  by (auto simp: ensureSSOAuthentication_def Let_def split: option.splits prod.splits sum.splits)

text \<open>
  C20. A session gets past the SSO check only if SSO is off, or it was confirmed before on this
  connection, or the device flow just returned an identity, and that identity matches the SSH
  user if matching is enforced. Only the last case marks the connection as verified; a failed
  check leaves the state as it was, unverified.
\<close>

theorem second_factor_gate:
  "case ensureSSOAuthentication U auth x of
     (Inl e, x') \<Rightarrow> xState x' = xState x \<and> \<not> IsSSOVerified (xState x')
   | (Inr _, x') \<Rightarrow>
       xState x' = xState x \<and> (xState x = None \<or> \<not> SSOEnabled (the (xState x)) \<or> IsSSOVerified (xState x))
       \<or> (\<exists>st i ns lines. xState x = Some st \<and> SSOEnabled st \<and> auth (sso_config_of st) (xNet x) = (Inr i, ns, lines)
           \<and> (\<not> SSOEnforceUserMatch st \<or> MatchesSSHUser U i (sso_client_user (xState x)))
           \<and> xState x' = SetSSOVerified (xState x) True)"
  by (rule ensure_SSO_cases)

lemma ensure_gates:
  assumes "ensureSSOAuthentication U auth x = (r, x')"
  shows "fst (gates (xState x')) = fst (gates (xState x))
    \<and> fst (snd (gates (xState x'))) = fst (snd (gates (xState x)))
    \<and> (r = Inr () \<longrightarrow> \<not> fst (snd (gates (xState x'))) \<or> snd (snd (gates (xState x'))))"
proof (cases "xState x")
  case None
  with assms show ?thesis by (auto simp: ensureSSOAuthentication_def gates_def)
next
  case st: (Some st)
  note gate = ensure_SSO_cases [where U = U and auth = auth and x = x, unfolded assms]
  show ?thesis
  proof (cases r)
    case (Inl e)
    with gate have "xState x' = xState x" by simp
    with Inl show ?thesis by (auto simp: gates_def st)
  next
    case (Inr u)
    with gate st consider "xState x' = Some st" "\<not> SSOEnabled st \<or> SSOVerified st"
      | "xState x' = Some (st\<lparr>SSOVerified := True\<rparr>)"
      by (auto simp: IsSSOVerified_def SetSSOVerified_def)
    then show ?thesis by cases (auto simp: gates_def st)
  qed
qed

section \<open>What reaches a target\<close>

definition reaches_target :: "event \<Rightarrow> bool" where
  "reaches_target e = (case e of
      Connected _ _ _ _ \<Rightarrow> True | SessionOpened _ \<Rightarrow> True | EnvSent _ _ \<Rightarrow> True | PtyRequested _ _ _ \<Rightarrow> True
    | ShellStarted _ \<Rightarrow> True | CommandStarted _ _ \<Rightarrow> True | WindowForwarded _ _ _ \<Rightarrow> True | _ \<Rightarrow> False)"

lemma ensure_events:
  "ensureSSOAuthentication U auth x = (r, x') \<Longrightarrow> \<exists>lines. xEvents x' = xEvents x @ map SSOLine lines"
  by (auto simp: ensureSSOAuthentication_def Let_def intro: exI [of _ "[]"]
      split: option.splits prod.splits sum.splits if_splits)

lemma show_failure_quiet: "e \<in> set (show_failure err) \<Longrightarrow> \<not> reaches_target e"
  by (auto simp: show_failure_def closeClientSession_def reaches_target_def)

lemma proxySession_events: "proxySession U F W a cmd x = (err, x') \<Longrightarrow> \<exists>es. xEvents x' = xEvents x @ es"
  by (elim proxySession_cases) auto

text \<open>
  C21. Nothing reaches a target without permission. If a run of the exec handler makes the proxy
  connect to a target, start a command there, or send it anything, then direct commands are
  allowed for this connection, and the second factor is off or confirmed.
\<close>

theorem exec_needs_permission:
  assumes "xEvents (handleExecProxy U auth F W command x) = xEvents x @ new" "e \<in> set new" "reaches_target e"
  shows "\<exists>st st'. xState x = Some st \<and> AllowDirectCommands st
    \<and> xState (handleExecProxy U auth F W command x) = Some st'
    \<and> AllowDirectCommands st' \<and> (\<not> SSOEnabled st' \<or> SSOVerified st')"
proof -
  obtain r x1 where ens: "ensureSSOAuthentication U auth x = (r, x1)" by fastforce
  obtain lines where lines: "xEvents x1 = xEvents x @ map SSOLine lines" using ensure_events [OF ens] by blast
  have quiet: "\<not> reaches_target e" if "e \<in> set (map SSOLine lines @ show_failure err)" for err
    using that show_failure_quiet by (auto simp: reaches_target_def)
  obtain st where st: "xState x = Some st" using assms(1,2) by (cases "xState x") (auto simp: handleExecProxy_def)
  have allow: "AllowDirectCommands st"
  proof (rule ccontr)
    assume "\<not> ?thesis"
    then have "new = show_failure DirectCommandsDisabled"
      using assms(1) st by (simp add: handleExecProxy_def)
    with assms(2,3) show_failure_quiet show False by blast
  qed
  have "r = Inr ()"
  proof (cases r)
    case (Inl err)
    with assms(1) st allow ens lines have "new = map SSOLine lines @ show_failure (SSOError err)"
      by (simp add: handleExecProxy_def)
    with quiet assms(2,3) show ?thesis by blast
  qed simp
  obtain err x2 where run: "proxySession U F W [] command x1 = (err, x2)" by fastforce
  have final: "xState (handleExecProxy U auth F W command x) = xState x2"
    using st allow ens \<open>r = Inr ()\<close> run by (simp add: handleExecProxy_def)
  have "gates (xState x2) = gates (xState x1)" by (rule proxySession_gates [OF run])
  with ensure_gates [OF ens] \<open>r = Inr ()\<close>
  have "fst (gates (xState x2)) = fst (gates (xState x))"
    "\<not> fst (snd (gates (xState x2))) \<or> snd (snd (gates (xState x2)))" by simp_all
  with st allow show ?thesis
    unfolding final by (cases "xState x2") (simp_all add: gates_def)
qed

text \<open>
  The same holds for shells, which need no permission of their own: if a run of the shell
  handler makes the proxy reach out to a target, the second factor is off or confirmed.
\<close>

lemma shell_needs_second_factor:
  assumes "xEvents (handleShellProxy U auth F W x) = xEvents x @ new" "e \<in> set new" "reaches_target e"
  shows "xState (handleShellProxy U auth F W x) = None \<or>
    (\<exists>st'. xState (handleShellProxy U auth F W x) = Some st' \<and> (\<not> SSOEnabled st' \<or> SSOVerified st'))"
proof -
  obtain r x1 where ens: "ensureSSOAuthentication U auth x = (r, x1)" by fastforce
  obtain lines where lines: "xEvents x1 = xEvents x @ map SSOLine lines" using ensure_events [OF ens] by blast
  have quiet: "\<not> reaches_target e" if "e \<in> set (map SSOLine lines @ show_failure err)" for err
    using that show_failure_quiet by (auto simp: reaches_target_def)
  have "r = Inr ()"
  proof (cases r)
    case (Inl err)
    with assms(1) ens lines have "new = map SSOLine lines @ show_failure (SSOError err)"
      by (simp add: handleShellProxy_def)
    with quiet assms(2,3) show ?thesis by blast
  qed simp
  obtain err x2 where run: "proxySession U F W [] [] x1 = (err, x2)" by fastforce
  have final: "xState (handleShellProxy U auth F W x) = xState x2"
    using ens \<open>r = Inr ()\<close> run by (simp add: handleShellProxy_def)
  have "gates (xState x2) = gates (xState x1)" by (rule proxySession_gates [OF run])
  with ensure_gates [OF ens] \<open>r = Inr ()\<close>
  have "\<not> fst (snd (gates (xState x2))) \<or> snd (snd (gates (xState x2)))" by simp
  then show ?thesis
    unfolding final by (cases "xState x2") (simp_all add: gates_def)
qed

section \<open>Opened is closed, and recorded while open\<close>

definition inner_event :: "event \<Rightarrow> bool" where
  "inner_event e = (case e of
      Connected _ _ _ _ \<Rightarrow> False | ClientClosed _ \<Rightarrow> False | SessionOpened _ \<Rightarrow> False | SessionClosed _ \<Rightarrow> False
    | RecorderOpened _ _ _ \<Rightarrow> False | RecorderClosed _ \<Rightarrow> False | _ \<Rightarrow> True)"

text \<open>A recorder is enabled exactly if its file could be opened.\<close>

definition recorded_part :: "session_world \<Rightarrow> event list \<Rightarrow> bool" where
  "recorded_part W es \<longleftrightarrow> es = [] \<or>
     (\<exists>path k body. es = RecorderOpened path k (wOpenFile W path) # body @ [RecorderClosed path]
        \<and> list_all inner_event body)"

definition session_part :: "session_world \<Rightarrow> event list \<Rightarrow> bool" where
  "session_part W es \<longleftrightarrow> es = [] \<or>
     (\<exists>s body. es = SessionOpened s # body @ [SessionClosed s] \<and> recorded_part W body)"

definition bracketed :: "session_world \<Rightarrow> event list \<Rightarrow> bool" where
  "bracketed W es \<longleftrightarrow> es = [] \<or>
     (\<exists>c u h p body. es = Connected c u h p # body @ [ClientClosed c] \<and> session_part W body)"

lemma NewRecorder_enabled:
  "NewRecorder U F format opened now sid f = Inr (k, r) \<Longrightarrow> rec_enabled (fst r) = opened"
  by (auto simp: NewRecorder_def NewAsciinemaRecorder_def NewScriptRecorder_def disabled_recorder_def Let_def
      split: if_splits prod.splits)

lemma run_remote_inner: "run_remote W s ses cmd = (err, es) \<Longrightarrow> list_all inner_event es"
  by (auto simp: run_remote_def Let_def env_events_def finalizeRemoteSession_def sendExitStatus_def
      closeClientSession_def inner_event_def list_all_iff
      split: prod.splits if_splits wait_result.splits option.splits)

lemma with_recording_part:
  "with_recording U F W s ses u h p cmd = (err, s', es) \<Longrightarrow> recorded_part W es \<and> (s' = s \<or> s' = SetRecorder s None)"
  using run_remote_inner NewRecorder_enabled
  by (auto simp: with_recording_def Let_def recorded_part_def SetRecorder_def
      split: option.splits if_splits sum.splits prod.splits)

lemma with_session_part:
  assumes "with_session U F W s c u h p cmd = (err, s', es)"
  shows "session_part W es"
proof (cases "wNewSession W c")
  case None
  with assms show ?thesis by (simp add: with_session_def session_part_def)
next
  case (Some ses)
  obtain err2 s2 es2 where w: "with_recording U F W (SetTargetSession s (Some ses)) ses u h p cmd = (err2, s2, es2)"
    by (metis prod_cases3)
  with Some assms have "es = SessionOpened ses # es2 @ [SessionClosed ses]" by (auto simp: with_session_def)
  with with_recording_part [OF w] show ?thesis by (auto simp: session_part_def)
qed

definition handles :: "state_ptr \<Rightarrow> handle option \<times> handle option \<times> handle option" where
  "handles s = (TargetClientValue s, TargetSessionValue s, RecorderValue s)"

lemma handles_simps [simp]:
  "handles (SetTarget s u h p) = handles s"
  "handles (SetTargetClient s c) = ((if s = None then None else c), TargetSessionValue s, RecorderValue s)"
  "TargetClientValue (SetTargetSession s c) = TargetClientValue s" "RecorderValue (SetTargetSession s c) = RecorderValue s"
  "TargetSessionValue (SetRecorder s c) = TargetSessionValue s" "TargetClientValue (SetRecorder s c) = TargetClientValue s"
  "TargetSessionValue (SetTarget s u h p) = TargetSessionValue s" "RecorderValue (SetTarget s u h p) = RecorderValue s"
  "TargetSessionValue (SetTargetClient s c) = TargetSessionValue s" "RecorderValue (SetTargetClient s c) = RecorderValue s"
  "TargetClientValue (SetTargetClient s None) = None"
  by (cases s; simp add: handles_def accessor_simps)+

text \<open>
  C22. A proxied session cleans up after itself on every path, errors and panics included. What it
  does is either nothing or one properly nested bracket: the target connection is opened first
  and closed last, within it the target session, within that the recorder; environment, terminal,
  shell and command only ever happen between the creation and the closing of the recorder, which
  is an enabled one exactly if its file could be opened. Afterwards the shared state refers to
  none of the objects the session opened.
\<close>

theorem session_bracketed:
  "\<exists>new. xEvents (snd (proxySession U F W a cmd x)) = xEvents x @ new \<and> bracketed W new
     \<and> fst (handles (xState (snd (proxySession U F W a cmd x)))) \<in> {None, TargetClientValue (xState x)}
     \<and> fst (snd (handles (xState (snd (proxySession U F W a cmd x))))) \<in> {None, TargetSessionValue (xState x)}
     \<and> snd (snd (handles (xState (snd (proxySession U F W a cmd x))))) \<in> {None, RecorderValue (xState x)}"
proof -
  obtain err x' where run: "proxySession U F W a cmd x = (err, x')" by fastforce
  then show ?thesis
  proof (cases rule: proxySession_cases)
    case (unconnected c ts s1 q)
    have "handles s1 = handles (xState x)" using connect_state [OF unconnected(2)] by auto
    then show ?thesis unfolding run using unconnected(4)
      by (intro exI [of _ "[]"]) (simp add: bracketed_def handles_def)
  next
    case (session c ts s1 client u h p s2 es)
    have h1: "handles s1 = handles (xState x)" using connect_state [OF session(2)] by auto
    have "TargetSessionValue s2 \<in> {None, TargetSessionValue s1}" "RecorderValue s2 \<in> {None, RecorderValue s1}"
      using with_session_state [OF session(3)]
      by (auto simp: target_session.read_write recorder.read_write split: if_splits)
    moreover have "bracketed W (Connected client u h p # es @ [ClientClosed client])"
      using with_session_part [OF session(3)] by (auto simp: bracketed_def)
    ultimately show ?thesis unfolding run using h1 session(4)
      by (intro exI [of _ "Connected client u h p # es @ [ClientClosed client]"]) (auto simp: handles_def)
  next
    case (panic p c)
    then show ?thesis unfolding run by (intro exI [of _ "[]"]) (simp add: bracketed_def handles_def)
  next
    case (unrouted e c)
    then show ?thesis unfolding run by (intro exI [of _ "[]"]) (simp add: bracketed_def handles_def)
  qed
qed

section \<open>Every session is counted once\<close>

lemma proxySession_metrics: "proxySession U F W a cmd x = (err, x') \<Longrightarrow> xMetrics x' = xMetrics x"
  by (elim proxySession_cases) auto

definition session_count :: "collector option \<Rightarrow> (string \<Rightarrow> nat) option" where
  "session_count c = map_option proxySessionsTotal c"

definition pending :: "collector option \<Rightarrow> int option" where
  "pending c = map_option ssoPendingSessions c"

definition count_one :: "string \<Rightarrow> (string \<Rightarrow> nat) option \<Rightarrow> (string \<Rightarrow> nat) option" where
  "count_one l n = map_option (\<lambda>f. f(l := Suc (f l))) n"

lemma count_simps [simp]:
  "pending (RecordProxySession U r c) = pending c"
  "l \<in> set result_labels \<Longrightarrow> session_count (RecordProxySession U l c) = count_one l (session_count c)"
  by (cases c; simp add: metrics_defs session_count_def pending_def count_one_def Let_def)+

lemma ensure_metrics:
  assumes "ensureSSOAuthentication U auth x = (r, x')"
  shows "session_count (xMetrics x') = session_count (xMetrics x)" "pending (xMetrics x') = pending (xMetrics x)"
  using assms
  by (auto simp: ensureSSOAuthentication_def Let_def metrics_defs session_count_def pending_def
      option.map_comp comp_def split: option.splits prod.splits sum.splits if_splits)

text \<open>When a session cannot panic: no slice of the round robin or of the failures out of range.\<close>

definition route_in_range :: "u64 \<Rightarrow> session_state \<Rightarrow> bool" where
  "route_in_range n st \<longleftrightarrow> unat n < 2 ^ 63
     \<and> (1 + nat (ConnectRetries st)) * max 1 (length (StaticTargets st)) \<le> 2 ^ 44"

lemma ordered_in_range:
  assumes "unat n < 2 ^ 63"
  shows "\<exists>ts'. orderedStaticTargets U ts mode n = (Some ts', snd (orderedStaticTargets U ts mode n)) \<and> length ts' = length ts"
proof (cases "length ts \<le> 1 \<or> NormalizeRoutingMode U mode \<noteq> RoutingModeRoundRobin")
  case True
  then show ?thesis by (auto simp: orderedStaticTargets_def)
next
  case False
  with orderedStaticTargets_rotate [OF _ _ assms, of U mode ts] show ?thesis by auto
qed

lemma candidates_in_range:
  assumes "route_in_range n st" "resolveTargetCandidates U n (Some st) a cmd = (r, c)"
  shows "\<exists>q. r = Returns q \<and> (\<forall>ts. q = Inr ts \<longrightarrow> length ts \<le> max 1 (length (StaticTargets st)))"
proof (cases "StaticRoutingEnabled st")
  case True
  obtain ts' where "orderedStaticTargets U (StaticTargets st) (StaticRoutingMode st) n
      = (Some ts', snd (orderedStaticTargets U (StaticTargets st) (StaticRoutingMode st) n))" "length ts' = length (StaticTargets st)"
    using ordered_in_range [of n U "StaticTargets st" "StaticRoutingMode st"] assms(1)
    unfolding route_in_range_def by blast
  with True assms(2) show ?thesis
    by (auto simp: resolveTargetCandidates_def split: if_splits option.splits prod.splits)
next
  case False
  with assms(2) show ?thesis
    by (auto simp: resolveTargetCandidates_def Let_def split: option.splits)
qed

lemma connect_in_range:
  assumes "route_in_range n st" "length ts \<le> max 1 (length (StaticTargets st))"
  shows "\<exists>s' q. connectToFirstAvailableTarget U connect (Some st) ts = (s', Returns q)"
proof (cases "ts = []")
  case False
  have "Suc (retries_of (Some st)) * length ts \<le> (1 + nat (ConnectRetries st)) * max 1 (length (StaticTargets st))"
    using assms(2) by (intro mult_le_mono) (simp_all add: retries_of_def)
  with assms(1) have n: "Suc (retries_of (Some st)) * length ts \<le> 2 ^ 44"
    unfolding route_in_range_def by linarith
  then have "Suc (retries_of (Some st)) * length ts < 2 ^ 63" by (rule le_less_trans) simp
  with n have "make_strings (total_attempts (Some st) ts)"
    using no_wrap(2) [OF False] make_strings_nat by presburger
  with connect_search [OF False this, of U connect] show ?thesis
    by (auto split: prod.splits outcome.splits)
qed (simp add: connectToFirstAvailableTarget_def)

lemma with_recording_returns: "\<exists>err s' es. with_recording U F W (Some st) ses u h p cmd = (Returns err, s', es)"
  by (auto simp: with_recording_def Let_def split: sum.splits prod.splits)

lemma with_session_returns: "\<exists>err s' es. with_session U F W (Some st) c u h p cmd = (Returns err, s', es)"
proof (cases "wNewSession W c")
  case (Some ses)
  obtain err s' es where "with_recording U F W (Some (st\<lparr>TargetSession := Some ses\<rparr>)) ses u h p cmd = (Returns err, s', es)"
    using with_recording_returns by blast
  with Some show ?thesis by (auto simp: with_session_def SetTargetSession_def)
qed (simp add: with_session_def)

lemma proxySession_returns:
  assumes "xState x = Some st" "route_in_range (xCounter x) st" "proxySession U F W a cmd x = (err, x')"
  shows "\<exists>e. err = Returns e"
  using assms(3)
proof (cases rule: proxySession_cases)
  case (panic p c)
  with candidates_in_range [OF assms(2)] assms(1) show ?thesis by fastforce
next
  case (unconnected c ts s1 q)
  from candidates_in_range [OF assms(2)] unconnected(1) assms(1)
  have "length ts \<le> max 1 (length (StaticTargets st))" by fastforce
  from connect_in_range [OF assms(2) this, of U "wConnect W"] unconnected(2,3) assms(1) show ?thesis by auto
next
  case (session c ts s1 client u h p s2 es)
  obtain st1 where "SetTarget (SetTargetClient s1 (Some client)) u h p = Some st1"
    using connect_state [OF session(2)] assms(1) by (auto simp: SetTarget_def SetTargetClient_def)
  with with_session_returns session(3) show ?thesis by (metis prod.inject)
qed simp

lemma proxySession_panic: "proxySession U F W a cmd x = (err, x') \<Longrightarrow> xPanic x' = xPanic x"
  by (elim proxySession_cases) auto

lemma ensure_keeps:
  assumes "ensureSSOAuthentication U auth x = (r, x')"
  shows "xPanic x' = xPanic x" "xCounter x' = xCounter x"
    "xState x = Some st \<Longrightarrow> \<exists>st'. xState x' = Some st' \<and> route_in_range n st' = route_in_range n st"
  using assms
  by (auto simp: ensureSSOAuthentication_def Let_def SetSSOVerified_def route_in_range_def
      split: option.splits prod.splits sum.splits if_splits)

lemma session_result_counted:
  assumes "proxySession U F W a cmd x = (err, x')"
  shows "case err of Panics p \<Rightarrow> xPanic (session_result U (err, x')) = Some p
      \<and> session_count (xMetrics (session_result U (err, x'))) = session_count (xMetrics x)
    | Returns e \<Rightarrow> xPanic (session_result U (err, x')) = xPanic x
      \<and> session_count (xMetrics (session_result U (err, x'))) =
          count_one (if e = None then ''success'' else ''failure'') (session_count (xMetrics x))"
    and "pending (xMetrics (session_result U (err, x'))) = pending (xMetrics x)"
  using proxySession_metrics [OF assms] proxySession_panic [OF assms]
  by (auto simp: session_result_def result_labels_def split: outcome.split option.split)

definition counted_once :: "string set \<Rightarrow> proxy_ctx \<Rightarrow> proxy_ctx \<Rightarrow> bool" where
  "counted_once labels x x' \<longleftrightarrow> pending (xMetrics x') = pending (xMetrics x)
     \<and> (if xPanic x' = None
        then \<exists>l \<in> labels. session_count (xMetrics x') = count_one l (session_count (xMetrics x))
        else session_count (xMetrics x') = session_count (xMetrics x))"

text \<open>The two handlers once they are past the check for direct commands.\<close>

lemma gated_counted:
  assumes x: "xPanic x = None"
    and x': "x' = (case ensureSSOAuthentication U auth x of
        (Inl e, y) \<Rightarrow> emit (show_failure (SSOError e)) (measured (RecordProxySession U ''failure'') y)
      | (Inr _, y) \<Rightarrow> session_result U (proxySession U F W [] cmd y))"
  shows "counted_once {''success'', ''failure''} x x'"
    and "xState x = Some st \<Longrightarrow> route_in_range (xCounter x) st \<Longrightarrow> xPanic x' = None"
proof -
  obtain r y where ens: "ensureSSOAuthentication U auth x = (r, y)" by fastforce
  obtain err z where run: "proxySession U F W [] cmd y = (err, z)" by fastforce
  note y = ensure_keeps [OF ens] ensure_metrics [OF ens]
  show "counted_once {''success'', ''failure''} x x'"
  proof (cases r)
    case (Inl e)
    with x x' ens y show ?thesis by (simp add: counted_once_def result_labels_def)
  next
    case (Inr u)
    with x x' ens y run session_result_counted [OF run] show ?thesis
      by (cases err) (auto simp: counted_once_def split: if_splits)
  qed
  assume st: "xState x = Some st" "route_in_range (xCounter x) st"
  show "xPanic x' = None"
  proof (cases r)
    case (Inl e)
    with x x' ens y show ?thesis by simp
  next
    case (Inr u)
    obtain st' where "xState y = Some st'" "route_in_range (xCounter y) st'"
      using y(2) y(3) [OF st(1), of "xCounter x"] st(2) by auto
    from proxySession_returns [OF this run] obtain e where "err = Returns e" by blast
    with Inr x x' ens y run session_result_counted(1) [OF run] show ?thesis by simp
  qed
qed

text \<open>
  C23. Every session that comes to an end is counted exactly once, and no waiting confirmation is
  forgotten: a run of a handler raises one of the three result counters by one, rejected for a
  direct command that is not allowed, success or failure otherwise; only a panic, which ends the
  process, is not counted. The gauge of pending confirmations is back at its old value on every
  path. And no handler of a connection panics as long as the route counter is below \<open>2^63\<close> and a
  session has at most \<open>2^44\<close> attempts to connect.
\<close>

theorem sessions_counted_once:
  assumes "xPanic x = None"
  shows "counted_once {''success'', ''failure''} x (handleShellProxy U auth F W x)
   \<and> counted_once (if \<exists>st. xState x = Some st \<and> AllowDirectCommands st then {''success'', ''failure''} else {''rejected''})
       x (handleExecProxy U auth F W cmd x)
   \<and> (\<forall>st. xState x = Some st \<and> route_in_range (xCounter x) st \<longrightarrow>
        xPanic (handleShellProxy U auth F W x) = None \<and> xPanic (handleExecProxy U auth F W cmd x) = None)"
proof -
  note shell = gated_counted [where U = U and auth = auth and F = F and W = W and cmd = "[]", OF assms refl, folded handleShellProxy_def]
  note exec = gated_counted [where U = U and auth = auth and F = F and W = W and cmd = cmd, OF assms refl]
  have allowed: "handleExecProxy U auth F W cmd x = (case ensureSSOAuthentication U auth x of
        (Inl e, y) \<Rightarrow> emit (show_failure (SSOError e)) (measured (RecordProxySession U ''failure'') y)
      | (Inr _, y) \<Rightarrow> session_result U (proxySession U F W [] cmd y))"
    if "xState x = Some st" "AllowDirectCommands st" for st
    using that by (simp add: handleExecProxy_def)
  show ?thesis
  proof (cases "\<exists>st. xState x = Some st \<and> AllowDirectCommands st")
    case True
    then obtain st where st: "xState x = Some st" "AllowDirectCommands st" by blast
    with shell exec show ?thesis unfolding allowed [OF st] by auto
  next
    case False
    then have "counted_once {''rejected''} x (handleExecProxy U auth F W cmd x)"
        "xState x \<noteq> None \<Longrightarrow> xPanic (handleExecProxy U auth F W cmd x) = None"
      using assms by (auto simp: counted_once_def handleExecProxy_def result_labels_def split: option.split)
    with shell False show ?thesis by auto
  qed
qed

section \<open>Concrete sessions\<close>

definition sample_session_world :: session_world where
  "sample_session_world = \<lparr>wConnect = (\<lambda>n s u h p. if h = ''db'' then Inr 4 else Inl (ConnectFailed [] [])),
     wNewSession = (\<lambda>_. Some 5), wMkdirAll = (\<lambda>_. True), wChmod = (\<lambda>_. True), wOpenFile = (\<lambda>_. True),
     wFile = (\<lambda>_. \<lparr>fdata = [], fspace = 100, closes = True\<rparr>), wNow = 0, wRecordingID = ''id'', wSessionID = ''sid'',
     wRecorderHandle = 6, wPipes = (True, True, True), wRequestPty = (\<lambda>_ _ _. True), wShell = True,
     wStart = (\<lambda>_. True), wWait = ExitedZero\<rparr>"

text \<open>A connection of alice with the second factor on, and a device flow that confirms her.\<close>

definition sample_ctx :: proxy_ctx where
  "sample_ctx = \<lparr>xState = Some (zero_state\<lparr>ClientUser := ''alice'', AllowDirectCommands := True,
       SSOEnabled := True, SSOEnforceUserMatch := True, StaticRoutingEnabled := True, StaticTargets := [''web'', ''db:2200'']\<rparr>),
     xMetrics = Some NewCollector, xNet = \<lparr>clock = 0, clients = [], trace = []\<rparr>, xCounter = 0, xEvents = [], xPanic = None\<rparr>"

definition confirms_alice :: device_auth where
  "confirms_alice cfg ns = (Inr \<lparr>Subject = [], PreferredUsername = ''alice'', Email = []\<rparr>, ns, [''open the page''])"

definition sample_exec :: proxy_ctx where
  "sample_exec = handleExecProxy ascii_tables confirms_alice sample_clock sample_session_world ''ls'' sample_ctx"

definition sample_shell :: proxy_ctx where
  "sample_shell = handleShellProxy ascii_tables confirms_alice sample_clock sample_session_world sample_ctx"

lemma second_factor_gate_witness:
  "\<exists>i. confirms_alice (sso_config_of (the (xState sample_ctx))) (xNet sample_ctx) = (Inr i, xNet sample_ctx, [''open the page''])
     \<and> MatchesSSHUser ascii_tables i ''alice''
     \<and> xState (snd (ensureSSOAuthentication ascii_tables confirms_alice sample_ctx)) = SetSSOVerified (xState sample_ctx) True"
proof -
  obtain r x' where run: "ensureSSOAuthentication ascii_tables confirms_alice sample_ctx = (r, x')" by fastforce
  have "fst (ensureSSOAuthentication ascii_tables confirms_alice sample_ctx) = Inr ()" by code_simp
  with run have "r = Inr ()" by simp
  moreover have "xState sample_ctx \<noteq> None" "SSOEnabled (the (xState sample_ctx))"
    "SSOEnforceUserMatch (the (xState sample_ctx))" "\<not> IsSSOVerified (xState sample_ctx)"
    "sso_client_user (xState sample_ctx) = ''alice''" by code_simp+
  ultimately show ?thesis
    using second_factor_gate [where U = ascii_tables and auth = confirms_alice and x = sample_ctx] run
    by (auto simp: confirms_alice_def)
qed

lemma sessions_counted_once_witness:
  "xPanic sample_exec = None \<and> pending (xMetrics sample_exec) = pending (xMetrics sample_ctx)
   \<and> (\<exists>l \<in> {''success'', ''failure''}. session_count (xMetrics sample_exec) = count_one l (session_count (xMetrics sample_ctx)))"
proof -
  have none: "xPanic sample_ctx = None" by (simp add: sample_ctx_def)
  have "\<exists>st. xState sample_ctx = Some st \<and> AllowDirectCommands st \<and> route_in_range (xCounter sample_ctx) st"
    by (simp add: sample_ctx_def route_in_range_def zero_state_def)
  with sessions_counted_once [OF none, of ascii_tables confirms_alice sample_clock sample_session_world "''ls''"]
  show ?thesis unfolding sample_exec_def [symmetric] counted_once_def by auto
qed

lemma exec_needs_permission_witness:
  "CommandStarted 5 ''ls'' \<in> set (xEvents sample_exec)
   \<and> (\<exists>st'. xState sample_exec = Some st' \<and> AllowDirectCommands st' \<and> (SSOEnabled st' \<longrightarrow> SSOVerified st'))"
proof
  show started: "CommandStarted 5 ''ls'' \<in> set (xEvents sample_exec)" by code_simp
  have "xEvents (handleExecProxy ascii_tables confirms_alice sample_clock sample_session_world ''ls'' sample_ctx)
      = xEvents sample_ctx @ xEvents sample_exec"
    by (simp add: sample_exec_def sample_ctx_def)
  from exec_needs_permission [OF this started]
  show "\<exists>st'. xState sample_exec = Some st' \<and> AllowDirectCommands st' \<and> (SSOEnabled st' \<longrightarrow> SSOVerified st')"
    by (auto simp: sample_exec_def reaches_target_def)
qed

lemma shell_needs_second_factor_witness:
  "ShellStarted 5 \<in> set (xEvents sample_shell) \<and> (\<exists>st'. xState sample_shell = Some st' \<and> SSOVerified st')"
proof
  show started: "ShellStarted 5 \<in> set (xEvents sample_shell)" by code_simp
  have "xEvents (handleShellProxy ascii_tables confirms_alice sample_clock sample_session_world sample_ctx)
      = xEvents sample_ctx @ xEvents sample_shell"
    by (simp add: sample_shell_def sample_ctx_def)
  note gate = shell_needs_second_factor [OF this started]
  have "map_option SSOEnabled (xState sample_shell) = Some True" by code_simp
  with gate show "\<exists>st'. xState sample_shell = Some st' \<and> SSOVerified st'"
    by (auto simp: sample_shell_def reaches_target_def)
qed

end
