(* ===== verification/Channels.thy ===== *)
theory Channels
  imports Session
begin

text \<open>
  \<open>internal/server/server.go\<close>: the requests of a connection and of its channels
  (\<open>handleEnvRequest\<close>, the loop of \<open>handleChannel\<close>, \<open>handleGlobalRequests\<close>), one request at a
  time. A handler that a request starts in a goroutine is reported as a value; it runs in
  theory \<open>Connection\<close>.
\<close>

section \<open>Requests on a channel\<close>

record request =
  reqType :: string
  reqWantReply :: bool
  reqPayload :: bytes

text \<open>
  \<open>handleEnvRequest\<close>: the new state and the reply it sends; \<open>None\<close> if a slice expression
  panics.
\<close>

definition handleEnvRequest :: "unicode \<Rightarrow> bytes \<Rightarrow> state_ptr \<Rightarrow> (state_ptr \<times> bool) option" where
  "handleEnvRequest U payload state =
     (case parseEnvPayload payload of
        Panic \<Rightarrow> None
      | Malformed \<Rightarrow> Some (state, False)
      | Parsed (varName, varValue) \<Rightarrow>
          if varName = ''LC_SSH_SERVER'' then
            (if (case state of None \<Rightarrow> False | Some st \<Rightarrow> StaticRoutingEnabled st) then Some (state, True)
             else (case resolveTargetAddress U varValue (ClientUserValue state) of
                 Inl e \<Rightarrow> Some (state, False)
               | Inr (targetUser, targetHost, targetPort) \<Rightarrow>
                   Some (SetTarget (SetEnvVar state varName varValue) targetUser targetHost targetPort, True)))
          else Some (SetEnvVar state varName varValue, True))"

text \<open>The local variables of \<open>handleChannel\<close>; \<open>sessionDone\<close> is non-nil once a session started.\<close>

record channel_locals =
  chCommand :: string
  chCols :: int
  chRows :: int
  chStarted :: bool

definition new_channel :: channel_locals where
  "new_channel = \<lparr>chCommand = [], chCols = 0, chRows = 0, chStarted = False\<rparr>"

text \<open>The goroutine a request starts.\<close>

datatype spawned = SpawnShell | SpawnExec string

text \<open>
  One iteration of the loop of \<open>handleChannel\<close>: the locals and the state after it, the calls of
  \<open>req.Reply\<close> in order, the goroutine started, and the window change forwarded to the target.
\<close>

definition handleChannelRequest ::
  "unicode \<Rightarrow> request \<Rightarrow> channel_locals \<Rightarrow> state_ptr
     \<Rightarrow> (channel_locals \<times> state_ptr \<times> bool list \<times> spawned option \<times> event list) option" where
  "handleChannelRequest U req ch state =
     (if reqType req = ''env'' then
        (case handleEnvRequest U (reqPayload req) state of
           None \<Rightarrow> None
         | Some (state, ok) \<Rightarrow> Some (ch, state, [ok, True], None, []))
      else if reqType req = ''auth-agent-req@openssh.com'' then
        Some (ch, SetAgentRequested state True, [True], None, [])
      else if reqType req = ''shell'' then
        (if chStarted ch then Some (ch, state, [False], None, [])
         else Some (ch\<lparr>chStarted := True\<rparr>, state, [True], Some SpawnShell, []))
      else if reqType req = ''exec'' then
        (if chStarted ch then Some (ch, state, [False], None, [])
         else (case parseExecPayload (reqPayload req) (chCommand ch) of
             Parsed command \<Rightarrow>
               Some (ch\<lparr>chCommand := command, chStarted := True\<rparr>, state, [True], Some (SpawnExec command), [])
           | _ \<Rightarrow> None))
      else if reqType req = ''pty-req'' then
        (case parsePtyRequest (reqPayload req) of
           Panic \<Rightarrow> None
         | Malformed \<Rightarrow> Some (ch, state, [False], None, [])
         | Parsed (term, cols, rows) \<Rightarrow>
             Some (ch\<lparr>chCols := cols, chRows := rows\<rparr>, SetPTY state term cols rows, [True], None, []))
      else if reqType req = ''window-change'' then
        (let (cols, rows) = parseWindowChange (reqPayload req) (chCols ch) (chRows ch);
             state = SetWindowSize state cols rows;
             forward = (case TargetSessionValue state of
                 None \<Rightarrow> [] | Some session \<Rightarrow> [WindowForwarded session rows cols])
         in Some (ch\<lparr>chCols := cols, chRows := rows\<rparr>, state, [True], None, forward))
      else if reqType req = ''subsystem'' then Some (ch, state, [False], None, [])
      else Some (ch, state, if reqWantReply req then [False] else [], None, []))"

text \<open>\<open>handleGlobalRequests\<close>: one iteration, with the replies.\<close>

definition handleGlobalRequest :: "unicode \<Rightarrow> request \<Rightarrow> state_ptr \<Rightarrow> (state_ptr \<times> bool list) option" where
  "handleGlobalRequest U req state =
     (if reqType req = ''env'' then
        map_option (\<lambda>(state, ok). (state, [ok])) (handleEnvRequest U (reqPayload req) state)
      else if reqType req = ''auth-agent-req@openssh.com'' then Some (SetAgentRequested state True, [True])
      else Some (state, if reqWantReply req then [False] else []))"

fun run_channel ::
  "unicode \<Rightarrow> request list \<Rightarrow> channel_locals \<Rightarrow> state_ptr \<Rightarrow> (spawned list \<times> state_ptr) option" where
  "run_channel U [] ch state = Some ([], state)"
| "run_channel U (req # reqs) ch state =
     (case handleChannelRequest U req ch state of
        None \<Rightarrow> None
      | Some (ch, state, replies, spawn, es) \<Rightarrow>
          map_option (\<lambda>(sp, s). ((case spawn of None \<Rightarrow> sp | Some w \<Rightarrow> w # sp), s)) (run_channel U reqs ch state))"

section \<open>Panics\<close>

text \<open>A request of a packet: an SSH packet is far below 4 GiB.\<close>

definition packet_sized :: "request \<Rightarrow> bool" where
  "packet_sized req \<longleftrightarrow> length (reqPayload req) < 2 ^ 32"

lemma env_total: "length p < 2 ^ 32 \<Longrightarrow> handleEnvRequest U p s \<noteq> None"
  using parseEnvPayload_not_panic [of p]
  by (auto simp: handleEnvRequest_def split: parsed.splits sum.splits)

lemma request_total:
  assumes "packet_sized req"
  shows "handleChannelRequest U req ch s \<noteq> None"
  using assms env_total [of "reqPayload req" U s] parsePty_not_panic [of "reqPayload req"]
    parseExec_parsed [of "reqPayload req" "chCommand ch"]
  by (auto simp: handleChannelRequest_def packet_sized_def Let_def split: option.splits parsed.splits prod.splits)

section \<open>What requests can change\<close>

lemma env_gates: "handleEnvRequest U p s = Some (s', ok) \<Longrightarrow> gates s' = gates s"
  by (cases s) (auto simp: handleEnvRequest_def gates_def accessor_simps
      split: parsed.splits sum.splits if_splits prod.splits)

lemma gates_more_setters [simp]:
  "gates (SetAgentRequested s b) = gates s" "gates (SetPTY s t c r) = gates s" "gates (SetWindowSize s c r) = gates s"
  by (cases s; simp add: gates_def accessor_simps)+

lemma request_gates: "handleChannelRequest U req ch s = Some (ch', s', rs, sp, es) \<Longrightarrow> gates s' = gates s"
  by (auto simp: handleChannelRequest_def Let_def env_gates
      split: if_splits option.splits parsed.splits prod.splits)

lemma request_started:
  assumes "handleChannelRequest U req ch s = Some (ch', s', rs, sp, es)"
  shows "chStarted ch' = (chStarted ch \<or> sp \<noteq> None)" and "chStarted ch \<longrightarrow> sp = None"
  using assms
  by (auto simp: handleChannelRequest_def Let_def split: if_splits option.splits parsed.splits prod.splits)

lemma run_channel_started:
  "run_channel U reqs ch s = Some (sp, s') \<Longrightarrow> length sp \<le> (if chStarted ch then 0 else 1) \<and> gates s' = gates s"
proof (induction reqs arbitrary: ch s sp)
  case (Cons req reqs)
  from Cons.prems obtain ch1 s1 rs w es sp1 where
    step: "handleChannelRequest U req ch s = Some (ch1, s1, rs, w, es)"
    and rest: "run_channel U reqs ch1 s1 = Some (sp1, s')" and sp: "sp = (case w of None \<Rightarrow> sp1 | Some v \<Rightarrow> v # sp1)"
    by (auto split: option.splits)
  from Cons.IH [OF rest] request_started [OF step] request_gates [OF step] sp show ?case
    by (auto split: option.splits if_splits)
qed simp

lemma run_channel_total: "list_all packet_sized reqs \<Longrightarrow> run_channel U reqs ch s \<noteq> None"
proof (induction reqs arbitrary: ch s)
  case (Cons req reqs)
  then have "handleChannelRequest U req ch s \<noteq> None" by (intro request_total) simp
  then obtain ch1 s1 rs w es where "handleChannelRequest U req ch s = Some (ch1, s1, rs, w, es)" by auto
  with Cons.IH [of ch1 s1] Cons.prems show ?case by simp
qed simp

text \<open>
  C24. A channel runs at most one session. Whatever requests a client sends on a channel, in
  whatever order, the proxy handles all of them without panicking, starts at most one shell or
  command for them, and none of them touches what gates a session: the permission for
  direct commands, the SSO switch, and the flag that SSO was confirmed.
\<close>

theorem one_session_per_channel:
  assumes "list_all packet_sized reqs"
  shows "\<exists>sp s'. run_channel U reqs new_channel s = Some (sp, s') \<and> length sp \<le> 1 \<and> gates s' = gates s"
proof -
  obtain sp s' where run: "run_channel U reqs new_channel s = Some (sp, s')"
    using run_channel_total [OF assms, of U new_channel s] by auto
  with run_channel_started [OF run] show ?thesis by (auto simp: new_channel_def)
qed

section \<open>The route a client asks for\<close>

text \<open>
  The stored route of a connection, when there is one, resolves for the connection's user; with
  static routing there never is one.
\<close>

definition route_ok :: "unicode \<Rightarrow> state_ptr \<Rightarrow> bool" where
  "route_ok U s \<longleftrightarrow> GetEnvVar s ''LC_SSH_SERVER'' = []
     \<or> (\<exists>t. resolveTargetAddress U (GetEnvVar s ''LC_SSH_SERVER'') (ClientUserValue s) = Inr t)
       \<and> \<not> (case s of None \<Rightarrow> False | Some st \<Rightarrow> StaticRoutingEnabled st)"

definition static_routing :: "state_ptr \<Rightarrow> bool" where
  "static_routing s = (case s of None \<Rightarrow> False | Some st \<Rightarrow> StaticRoutingEnabled st)"

lemma route_reads [simp]:
  "GetEnvVar (SetTarget s u h p) n = GetEnvVar s n" "GetEnvVar (SetAgentRequested s b) n = GetEnvVar s n"
  "GetEnvVar (SetPTY s t c r) n = GetEnvVar s n" "GetEnvVar (SetWindowSize s c r) n = GetEnvVar s n"
  "ClientUserValue (SetAgentRequested s b) = ClientUserValue s" "ClientUserValue (SetPTY s t c r) = ClientUserValue s"
  "ClientUserValue (SetWindowSize s c r) = ClientUserValue s" "ClientUserValue (SetEnvVar s n v) = ClientUserValue s"
  "static_routing (SetTarget s u h p) = static_routing s" "static_routing (SetAgentRequested s b) = static_routing s"
  "static_routing (SetPTY s t c r) = static_routing s" "static_routing (SetWindowSize s c r) = static_routing s"
  "static_routing (SetEnvVar s n v) = static_routing s"
  by (cases s; simp add: accessor_simps static_routing_def)+

lemma env_route:
  assumes "handleEnvRequest U p s = Some (s', ok)" "route_ok U s"
  shows "route_ok U s'" and "ClientUserValue s' = ClientUserValue s" and "static_routing s' = static_routing s"
  using assms
  by (auto simp: handleEnvRequest_def route_ok_def static_routing_def [symmetric] GetEnvVar_other env_var.read_write
      split: parsed.splits sum.splits if_splits prod.splits)

lemma request_route:
  assumes "handleChannelRequest U req ch s = Some (ch', s', rs, sp, es)" "route_ok U s"
  shows "route_ok U s'" and "ClientUserValue s' = ClientUserValue s" and "static_routing s' = static_routing s"
  using assms env_route [OF _ assms(2)]
  by (auto simp: handleChannelRequest_def route_ok_def static_routing_def [symmetric] Let_def
      split: if_splits option.splits parsed.splits prod.splits)

lemma run_channel_route:
  "run_channel U reqs ch s = Some (sp, s') \<Longrightarrow> route_ok U s \<Longrightarrow> route_ok U s' \<and> ClientUserValue s' = ClientUserValue s"
proof (induction reqs arbitrary: ch s sp)
  case (Cons req reqs)
  from Cons.prems obtain ch1 s1 rs w es sp1 where
    step: "handleChannelRequest U req ch s = Some (ch1, s1, rs, w, es)"
    and rest: "run_channel U reqs ch1 s1 = Some (sp1, s')"
    by (auto split: option.splits)
  from Cons.IH [OF rest] request_route [OF step Cons.prems(2)] show ?case by simp
qed simp

text \<open>
  C25. Only resolvable routes are stored. Starting from a connection without a stored route,
  no sequence of channel requests can leave an \<open>LC_SSH_SERVER\<close> value behind that does not resolve
  for the connection's own user, and with static routing no value is stored at all. A request with
  a value that does not resolve changes nothing, neither in the shared state nor in the channel:
  it is refused, but the loop then answers a second time, with success. With static routing the
  request changes nothing either, and is answered with success twice.
\<close>

theorem stored_routes_resolve:
  assumes "run_channel U reqs new_channel s = Some (sp, s')" "GetEnvVar s ''LC_SSH_SERVER'' = []"
  shows "(GetEnvVar s' ''LC_SSH_SERVER'' = []
      \<or> (\<exists>t. resolveTargetAddress U (GetEnvVar s' ''LC_SSH_SERVER'') (ClientUserValue s) = Inr t)
        \<and> \<not> static_routing s')
    \<and> (reqType req = ''env'' \<and> parseEnvPayload (reqPayload req) = Parsed (''LC_SSH_SERVER'', v) \<longrightarrow>
        (\<not> static_routing q \<and> resolveTargetAddress U v (ClientUserValue q) = Inl e
          \<longrightarrow> handleChannelRequest U req ch q = Some (ch, q, [False, True], None, []))
      \<and> (static_routing q \<longrightarrow> handleChannelRequest U req ch q = Some (ch, q, [True, True], None, [])))"
proof -
  have "route_ok U s" using assms(2) by (simp add: route_ok_def)
  from run_channel_route [OF assms(1) this]
  have "route_ok U s'" "ClientUserValue s' = ClientUserValue s" by simp_all
  then have "GetEnvVar s' ''LC_SSH_SERVER'' = []
      \<or> (\<exists>t. resolveTargetAddress U (GetEnvVar s' ''LC_SSH_SERVER'') (ClientUserValue s) = Inr t) \<and> \<not> static_routing s'"
    unfolding route_ok_def static_routing_def [symmetric] by metis
  then show ?thesis
    by (simp add: handleChannelRequest_def handleEnvRequest_def static_routing_def [symmetric])
qed

section \<open>Two oddities\<close>

text \<open>
  On a channel an \<open>env\<close> request is answered twice: \<open>handleEnvRequest\<close> replies, and the loop
  replies again, with success, even after a refusal.
\<close>

lemma env_answered_twice:
  "handleChannelRequest U \<lparr>reqType = ''env'', reqWantReply = True, reqPayload = []\<rparr> ch s
     = Some (ch, s, [False, True], None, [])"
  by (simp add: handleChannelRequest_def handleEnvRequest_def parseEnvPayload_def)

text \<open>
  An \<open>exec\<close> request whose payload is malformed is accepted and run with the empty command, and
  the empty command is how \<open>proxySession\<close> is told to start a shell.
\<close>

lemma malformed_exec_accepted:
  "handleChannelRequest U \<lparr>reqType = ''exec'', reqWantReply = True, reqPayload = ''xyz''\<rparr> new_channel s
     = Some (new_channel\<lparr>chStarted := True\<rparr>, s, [True], Some (SpawnExec []), [])"
  by (simp add: handleChannelRequest_def new_channel_def parseExecPayload_def)

section \<open>Concrete requests\<close>

definition sample_requests :: "request list" where
  "sample_requests =
     [\<lparr>reqType = ''env'', reqWantReply = False, reqPayload = encode_string ''LC_SSH_SERVER'' @ encode_string ''db:2200''\<rparr>,
      \<lparr>reqType = ''shell'', reqWantReply = True, reqPayload = []\<rparr>,
      \<lparr>reqType = ''exec'', reqWantReply = True, reqPayload = encode_string ''ls''\<rparr>]"

definition alice_state :: state_ptr where
  "alice_state = Some (zero_state\<lparr>ClientUser := ''alice''\<rparr>)"

lemma one_session_per_channel_witness:
  "\<exists>sp s'. run_channel ascii_tables sample_requests new_channel alice_state = Some (sp, s') \<and> length sp \<le> 1 \<and> gates s' = gates alice_state"
proof (rule one_session_per_channel)
  show "list_all packet_sized sample_requests" by code_simp
qed

lemma stored_routes_resolve_witness:
  "\<exists>t. resolveTargetAddress ascii_tables ''db:2200'' ''alice'' = Inr t"
proof -
  obtain sp s' where run: "run_channel ascii_tables sample_requests new_channel alice_state = Some (sp, s')"
    "GetEnvVar s' ''LC_SSH_SERVER'' = ''db:2200''"
  proof -
    have "map_option (\<lambda>(sp, s'). GetEnvVar s' ''LC_SSH_SERVER'') (run_channel ascii_tables sample_requests new_channel alice_state)
        = Some ''db:2200''" by code_simp
    then show thesis using that by auto
  qed
  have "GetEnvVar alice_state ''LC_SSH_SERVER'' = []" "ClientUserValue alice_state = ''alice''" by code_simp+
  with stored_routes_resolve [OF run(1)] run(2) show ?thesis by auto
qed

end
