(* ===== verification/Security.thy ===== *)
theory Security
  imports Session_State Go_Path
begin

text \<open>
  \<open>internal/server/security.go\<close>: which client keys the proxy accepts. The file system, the
  clock, the wire encoding of keys and the parser of \<open>authorized_keys\<close> lines (package
  \<open>golang.org/x/crypto/ssh\<close>) are the fields of \<open>auth_world\<close>.
\<close>

record auth_world =
  UserHomeDir :: "string option"
  StatOk :: "string \<Rightarrow> bool"
  ReadFile :: "string \<Rightarrow> bytes option"
  ParseAuthorizedKey :: "bytes \<Rightarrow> (public_key \<times> bytes) option"
  Marshal :: "public_key \<Rightarrow> bytes"
  UnixNow :: u64

datatype auth_error =
    AuthorizedKeysNotFound string | ReadFailed string | ParseFailed string
  | Unauthorized public_key | CertificateExpired | UnknownCA public_key | MultipleKeys string

definition DefaultAuthorizedKeysPath :: "auth_world \<Rightarrow> string" where
  "DefaultAuthorizedKeysPath W =
     (case UserHomeDir W of
        None \<Rightarrow> ''./authorized_keys''
      | Some homeDir \<Rightarrow>
          if TrimSpace homeDir = [] then ''./authorized_keys''
          else filepath_Join [homeDir, ''.ssh'', ''authorized_keys''])"

definition getAuthorizedKeysPath :: "auth_world \<Rightarrow> string \<Rightarrow> auth_error + string" where
  "getAuthorizedKeysPath W configuredPath =
     (let path = TrimSpace configuredPath in
      if path \<noteq> [] then Inr path
      else
        (let defaultPath = DefaultAuthorizedKeysPath W in
         if \<not> StatOk W defaultPath then Inl (AuthorizedKeysNotFound defaultPath) else Inr defaultPath))"

text \<open>The loop over the lines of the file; \<open>None\<close> when the fuel runs out.\<close>

fun authorized_loop :: "auth_world \<Rightarrow> string \<Rightarrow> public_key \<Rightarrow> nat \<Rightarrow> bytes \<Rightarrow> (auth_error + unit) option" where
  "authorized_loop W path key 0 remaining = None"
| "authorized_loop W path key (Suc fuel) remaining =
     (if TrimSpace remaining = [] then Some (Inl (Unauthorized key))
      else (case ParseAuthorizedKey W remaining of
          None \<Rightarrow> Some (Inl (ParseFailed path))
        | Some (authorizedKey, rest) \<Rightarrow>
            if Marshal W authorizedKey = Marshal W key then Some (Inr ())
            else authorized_loop W path key fuel rest))"

definition isAuthorizedClientKey ::
  "auth_world \<Rightarrow> public_key \<Rightarrow> string \<Rightarrow> bool \<Rightarrow> (auth_error + unit) option" where
  "isAuthorizedClientKey W key authorizedKeysPath autoAcceptClientKeys =
     (if autoAcceptClientKeys then Some (Inr ())
      else (case getAuthorizedKeysPath W authorizedKeysPath of
          Inl e \<Rightarrow> Some (Inl e)
        | Inr path \<Rightarrow>
            (case ReadFile W path of
               None \<Rightarrow> Some (Inl (ReadFailed path))
             | Some keyData \<Rightarrow> authorized_loop W path key (Suc (length keyData)) keyData)))"

text \<open>The loop over the trusted authorities: \<open>None\<close> when none of them made the certificate.\<close>

fun ca_decision :: "auth_world \<Rightarrow> public_key \<Rightarrow> u64 \<Rightarrow> public_key list \<Rightarrow> (auth_error + unit) option" where
  "ca_decision W signatureKey validBefore [] = None"
| "ca_decision W signatureKey validBefore (ca # cas) =
     (if Marshal W signatureKey = Marshal W ca then
        (if validBefore = 0 \<or> validBefore > UnixNow W then Some (Inr ()) else Some (Inl CertificateExpired))
      else ca_decision W signatureKey validBefore cas)"

definition isAuthorizedClientKeyWithCA ::
  "auth_world \<Rightarrow> public_key \<Rightarrow> string \<Rightarrow> public_key list \<Rightarrow> bool \<Rightarrow> (auth_error + unit) option" where
  "isAuthorizedClientKeyWithCA W key authorizedKeysPath trustedCACerts autoAcceptClientKeys =
     (if autoAcceptClientKeys then Some (Inr ())
      else (case key of
          CertKey _ _ _ _ validBefore signatureKey _ \<Rightarrow>
            (case ca_decision W signatureKey validBefore trustedCACerts of
               Some d \<Rightarrow> Some d
             | None \<Rightarrow>
                 if trustedCACerts \<noteq> [] then Some (Inl (UnknownCA key))
                 else isAuthorizedClientKey W key authorizedKeysPath False)
        | PlainKey _ \<Rightarrow> isAuthorizedClientKey W key authorizedKeysPath False))"

section \<open>Loading certificate authorities\<close>

fun ca_file_loop :: "auth_world \<Rightarrow> string \<Rightarrow> nat \<Rightarrow> bytes \<Rightarrow> public_key list \<Rightarrow> (auth_error + public_key list) option" where
  "ca_file_loop W path 0 data certs = None"
| "ca_file_loop W path (Suc fuel) data certs =
     (if TrimSpace data = [] then Some (Inr certs)
      else (case ParseAuthorizedKey W data of
          None \<Rightarrow> Some (Inl (ParseFailed path))
        | Some (cert, rest) \<Rightarrow> ca_file_loop W path fuel rest (certs @ [cert])))"

fun ca_paths_loop :: "auth_world \<Rightarrow> string list \<Rightarrow> public_key list \<Rightarrow> (auth_error + public_key list) option" where
  "ca_paths_loop W [] certs = Some (Inr certs)"
| "ca_paths_loop W (path0 # paths) certs =
     (let path = TrimSpace path0 in
      if path = [] then ca_paths_loop W paths certs
      else (case ReadFile W path of
          None \<Rightarrow> Some (Inl (ReadFailed path))
        | Some data \<Rightarrow>
            (case ca_file_loop W path (Suc (length data)) data certs of
               Some (Inr certs) \<Rightarrow> ca_paths_loop W paths certs
             | r \<Rightarrow> r)))"

definition LoadTrustedCACerts :: "auth_world \<Rightarrow> string list \<Rightarrow> (auth_error + public_key list) option" where
  "LoadTrustedCACerts W caCertPaths = ca_paths_loop W caCertPaths []"

definition LoadCAPublicKeyFromFile :: "auth_world \<Rightarrow> string \<Rightarrow> auth_error + public_key" where
  "LoadCAPublicKeyFromFile W path =
     (case ReadFile W path of
        None \<Rightarrow> Inl (ReadFailed path)
      | Some data \<Rightarrow>
          (case ParseAuthorizedKey W data of
             None \<Rightarrow> Inl (ParseFailed path)
           | Some (pub, rest) \<Rightarrow> if TrimSpace rest \<noteq> [] then Inl (MultipleKeys path) else Inr pub))"

section \<open>What a key file means\<close>

text \<open>The keys of a file in order, and whether the file parses to its end.\<close>

fun file_keys :: "auth_world \<Rightarrow> nat \<Rightarrow> bytes \<Rightarrow> public_key list \<times> bool" where
  "file_keys W 0 data = ([], False)"
| "file_keys W (Suc fuel) data =
     (if TrimSpace data = [] then ([], True)
      else (case ParseAuthorizedKey W data of
          None \<Rightarrow> ([], False)
        | Some (k, rest) \<Rightarrow> (case file_keys W fuel rest of (ks, ok) \<Rightarrow> (k # ks, ok))))"

text \<open>The parser reports what is behind the line it read, so it always makes progress.\<close>

definition parser_progress :: "auth_world \<Rightarrow> bool" where
  "parser_progress W \<longleftrightarrow> (\<forall>d k rest. ParseAuthorizedKey W d = Some (k, rest) \<longrightarrow> length rest < length d)"

lemma authorized_loop_result:
  assumes "parser_progress W" "length data < fuel"
  shows "authorized_loop W path key fuel data =
    Some (if Marshal W key \<in> Marshal W ` set (fst (file_keys W fuel data)) then Inr ()
          else if snd (file_keys W fuel data) then Inl (Unauthorized key) else Inl (ParseFailed path))"
  using assms(2)
proof (induction fuel arbitrary: data)
  case (Suc fuel)
  have "length rest < fuel" if "ParseAuthorizedKey W data = Some (k, rest)" for k rest
    using that assms(1) Suc.prems by (fastforce simp: parser_progress_def)
  with Suc.IH show ?case by (auto split: option.splits prod.splits)
qed simp

lemma ca_file_loop_result:
  assumes "parser_progress W" "length data < fuel"
  shows "ca_file_loop W path fuel data certs =
    Some (if snd (file_keys W fuel data) then Inr (certs @ fst (file_keys W fuel data)) else Inl (ParseFailed path))"
  using assms(2)
proof (induction fuel arbitrary: data certs)
  case (Suc fuel)
  have "length rest < fuel" if "ParseAuthorizedKey W data = Some (k, rest)" for k rest
    using that assms(1) Suc.prems by (fastforce simp: parser_progress_def)
  with Suc.IH show ?case by (auto split: option.splits prod.splits)
qed simp

lemma ca_decision_iff:
  "ca_decision W sk vb cas =
     (if Marshal W sk \<in> Marshal W ` set cas
      then Some (if vb = 0 \<or> vb > UnixNow W then Inr () else Inl CertificateExpired) else None)"
  by (induction cas) auto

text \<open>The keys that the configured file grants access to.\<close>

definition granted_keys :: "auth_world \<Rightarrow> string \<Rightarrow> public_key list" where
  "granted_keys W authorizedKeysPath =
     (case getAuthorizedKeysPath W authorizedKeysPath of
        Inl _ \<Rightarrow> []
      | Inr path \<Rightarrow> (case ReadFile W path of None \<Rightarrow> [] | Some d \<Rightarrow> fst (file_keys W (Suc (length d)) d)))"

lemma isAuthorizedClientKey_iff:
  assumes "parser_progress W"
  shows "isAuthorizedClientKey W key path auto \<noteq> None"
    and "isAuthorizedClientKey W key path auto = Some (Inr ()) \<longleftrightarrow>
      auto \<or> Marshal W key \<in> Marshal W ` set (granted_keys W path)"
proof -
  have "authorized_loop W p key (Suc (length d)) d =
    Some (if Marshal W key \<in> Marshal W ` set (fst (file_keys W (Suc (length d)) d)) then Inr ()
          else if snd (file_keys W (Suc (length d)) d) then Inl (Unauthorized key) else Inl (ParseFailed p))" for p d
    by (rule authorized_loop_result [OF assms]) simp
  then show "isAuthorizedClientKey W key path auto \<noteq> None"
    and "isAuthorizedClientKey W key path auto = Some (Inr ()) \<longleftrightarrow>
      auto \<or> Marshal W key \<in> Marshal W ` set (granted_keys W path)"
    by (auto simp: isAuthorizedClientKey_def granted_keys_def
        simp del: authorized_loop.simps file_keys.simps split: sum.splits option.splits)
qed

text \<open>
  C26. Which keys get in, exactly. The check always returns, and without the auto-accept switch
  it lets a key in if and only if it is a certificate naming a trusted authority as its signer
  and not past its end of validity, or it is byte-equal to a key of the \<open>authorized_keys\<close>
  file; the file counts for certificates only when no authority is configured at all.
\<close>

theorem authorization_exact:
  assumes "parser_progress W"
  shows "isAuthorizedClientKeyWithCA W key path cas auto \<noteq> None
    \<and> (isAuthorizedClientKeyWithCA W key path cas auto = Some (Inr ()) \<longleftrightarrow>
        auto
        \<or> (\<exists>k t ps va vb sk sig. key = CertKey k t ps va vb sk sig
             \<and> Marshal W sk \<in> Marshal W ` set cas \<and> (vb = 0 \<or> vb > UnixNow W))
        \<or> ((cas = [] \<or> (\<exists>b. key = PlainKey b))
           \<and> Marshal W key \<in> Marshal W ` set (granted_keys W path)))"
  using isAuthorizedClientKey_iff [OF assms, of key path False]
  by (cases key) (auto simp: isAuthorizedClientKeyWithCA_def ca_decision_iff)

text \<open>
  C27. A certificate is accepted on its word. For a signer the proxy trusts, the decision does
  not depend on the signature, on the certified key, on the principals, on the certificate type
  or on the start of validity: whoever knows the public key of a trusted authority can make a
  certificate for a key of their own that is accepted, with any bytes as its signature.
\<close>

theorem certificate_not_verified:
  assumes "ca \<in> set cas"
  shows "isAuthorizedClientKeyWithCA W (CertKey k t ps va vb ca sig) path cas False =
      isAuthorizedClientKeyWithCA W (CertKey k' t' ps' va' vb ca sig') path cas False
    \<and> isAuthorizedClientKeyWithCA W (CertKey k t ps va 0 ca sig) path cas False = Some (Inr ())"
proof -
  have "Marshal W ca \<in> Marshal W ` set cas" using assms by blast
  then show ?thesis by (simp add: isAuthorizedClientKeyWithCA_def ca_decision_iff)
qed

section \<open>Loading authorities is all or nothing\<close>

definition ca_path_keys :: "auth_world \<Rightarrow> string \<Rightarrow> (public_key list) option" where
  "ca_path_keys W path =
     (case ReadFile W path of
        None \<Rightarrow> None
      | Some d \<Rightarrow> (case file_keys W (Suc (length d)) d of (ks, ok) \<Rightarrow> if ok then Some ks else None))"

definition ca_paths :: "string list \<Rightarrow> string list" where
  "ca_paths paths = filter (\<lambda>p. p \<noteq> []) (map TrimSpace paths)"

lemma ca_paths_loop_result:
  assumes "parser_progress W"
  shows "if list_all (\<lambda>p. ca_path_keys W p \<noteq> None) (ca_paths paths)
    then ca_paths_loop W paths certs = Some (Inr (certs @ concat (map (\<lambda>p. the (ca_path_keys W p)) (ca_paths paths))))
    else \<exists>e. ca_paths_loop W paths certs = Some (Inl e)"
proof (induction paths arbitrary: certs)
  case Nil
  then show ?case by (simp add: ca_paths_def)
next
  case (Cons p paths)
  have loop: "ca_file_loop W q (Suc (length d)) d certs =
    Some (if snd (file_keys W (Suc (length d)) d) then Inr (certs @ fst (file_keys W (Suc (length d)) d)) else Inl (ParseFailed q))" for q d certs
    by (rule ca_file_loop_result [OF assms]) simp
  show ?case
  proof (cases "TrimSpace p = []")
    case True
    with Cons show ?thesis by (simp add: ca_paths_def)
  next
    case False
    then have ps: "ca_paths (p # paths) = TrimSpace p # ca_paths paths" by (simp add: ca_paths_def)
    show ?thesis
    proof (cases "ca_path_keys W (TrimSpace p)")
      case None
      with False ps show ?thesis
        by (auto simp: ca_path_keys_def loop Let_def simp del: ca_file_loop.simps file_keys.simps
            split: option.splits if_splits prod.splits)
    next
      case (Some ks)
      then obtain d where "ReadFile W (TrimSpace p) = Some d" "file_keys W (Suc (length d)) d = (ks, True)"
        by (auto simp: ca_path_keys_def simp del: file_keys.simps split: option.splits if_splits prod.splits)
      with False have "ca_paths_loop W (p # paths) certs = ca_paths_loop W paths (certs @ ks)"
        by (simp add: loop Let_def del: ca_file_loop.simps file_keys.simps)
      with Cons [of "certs @ ks"] Some ps show ?thesis by simp
    qed
  qed
qed

text \<open>
  The trusted authorities are loaded completely or not at all: if every configured,
  non-blank path can be read and parsed to its end, the result is all their keys in order; if
  one cannot, loading fails, so a damaged file never leaves a shorter list behind.
\<close>

lemma load_cas_all_or_nothing:
  assumes "parser_progress W"
  shows "(LoadTrustedCACerts W paths = Some (Inr cs) \<longleftrightarrow>
      list_all (\<lambda>p. ca_path_keys W p \<noteq> None) (ca_paths paths)
      \<and> cs = concat (map (\<lambda>p. the (ca_path_keys W p)) (ca_paths paths)))
    \<and> LoadTrustedCACerts W paths \<noteq> None"
  using ca_paths_loop_result [OF assms, of paths "[]"]
  by (auto simp: LoadTrustedCACerts_def split: if_splits)

section \<open>A concrete world\<close>

text \<open>One key per line, the line itself being the key.\<close>

definition line_parser :: "bytes \<Rightarrow> (public_key \<times> bytes) option" where
  "line_parser d = (if d = [] then None
     else Some (PlainKey (takeWhile (\<lambda>c. c \<noteq> CHR 0x0A) d), drop 1 (dropWhile (\<lambda>c. c \<noteq> CHR 0x0A) d)))"

fun sample_marshal :: "public_key \<Rightarrow> bytes" where
  "sample_marshal (PlainKey b) = CHR ''P'' # b"
| "sample_marshal (CertKey k t ps va vb sk sig) = CHR ''C'' # sample_marshal k @ sig"

definition sample_world :: auth_world where
  "sample_world = \<lparr>UserHomeDir = Some ''/home/proxy'', StatOk = (\<lambda>_. True),
     ReadFile = (\<lambda>p. if p = ''/home/proxy/.ssh/authorized_keys'' then Some (''alice'' @ CHR 0x0A # ''bob'')
        else if p = ''/etc/ca'' then Some ''authority'' else None),
     ParseAuthorizedKey = line_parser, Marshal = sample_marshal, UnixNow = 1000\<rparr>"

lemma sample_progress: "parser_progress sample_world"
proof -
  have "length (drop 1 (dropWhile P d)) < length d" if "d \<noteq> []" for P and d :: bytes
  proof -
    have "length (dropWhile P d) \<le> length d" by (rule length_dropWhile_le)
    moreover have "0 < length d" using that by simp
    ultimately show ?thesis unfolding length_drop by linarith
  qed
  then show ?thesis
    by (auto simp: parser_progress_def sample_world_def line_parser_def split: if_splits)
qed

lemma authorization_exact_witness:
  "isAuthorizedClientKeyWithCA sample_world (PlainKey ''bob'') [] [] False = Some (Inr ())"
proof -
  have "Marshal sample_world (PlainKey ''bob'') \<in> Marshal sample_world ` set (granted_keys sample_world [])"
    by code_simp
  with authorization_exact [OF sample_progress, of "PlainKey ''bob''" "[]" "[]" False] show ?thesis by blast
qed

lemma certificate_not_verified_witness:
  "isAuthorizedClientKeyWithCA sample_world
     (CertKey (PlainKey ''mallory'') 2 [] 5000 0 (PlainKey ''authority'') ''forged'') [] [PlainKey ''authority''] False
   = Some (Inr ())"
  using certificate_not_verified [of "PlainKey ''authority''" "[PlainKey ''authority'']" sample_world
      "PlainKey ''mallory''" 2 "[]" 5000 0 "''forged''" "[]"] by simp

lemma load_cas_all_or_nothing_witness:
  "LoadTrustedCACerts sample_world ['' /etc/ca '', []] = Some (Inr [PlainKey ''authority''])"
proof -
  have "list_all (\<lambda>p. ca_path_keys sample_world p \<noteq> None) (ca_paths ['' /etc/ca '', []])
      \<and> [PlainKey ''authority''] = concat (map (\<lambda>p. the (ca_path_keys sample_world p)) (ca_paths ['' /etc/ca '', []]))"
    by code_simp
  with load_cas_all_or_nothing [OF sample_progress] show ?thesis by blast
qed

end
