(* ===== verification/App_Config.thy ===== *)
theory App_Config
  imports Target Routing SSO Recording Security
begin

text \<open>
  \<open>internal/appconfig/config.go\<close>: the start-up configuration, its defaults, the fallbacks for
  older files, and its validation. Reading the file and decoding JSON are parameters of
  \<open>Load\<close>; environment variables come from \<open>getenv\<close>.
\<close>

section \<open>Data\<close>

record static_routing_config =
  srEnabled :: bool
  srServers :: "string list"
  srMode :: string
  srRetries :: int
  srConnectTimeoutSeconds :: int

record metrics_config =
  mEnabled :: bool
  mListen :: string
  mPath :: string

record sso_settings =
  ssoEnabled :: bool
  ssoProvider :: string
  ssoBaseURL :: string
  ssoRealm :: string
  ssoClientID :: string
  ssoClientSecret :: string
  ssoScope :: string
  ssoAuthTimeoutSeconds :: int
  ssoPollIntervalSeconds :: int
  ssoConnectTimeoutSeconds :: int
  ssoEnforceSSHUserMatch :: bool
  ssoInsecureSkipVerify :: bool

record app_config =
  cListen :: string
  cKey :: string
  cLogLevel :: string
  cRecordingsDir :: string
  cAuthorizedKeys :: string
  cAutoAcceptClientKeys :: bool
  cAllowDirectCommands :: bool
  cInsecureIgnoreHostKey :: bool
  cRecordingFormat :: string
  cRetries :: int
  cConnectTimeoutSeconds :: int
  cStaticRouting :: static_routing_config
  cMetrics :: metrics_config
  cSSO :: sso_settings
  cTrustedCACerts :: "string list"
  cTrustedHostCACerts :: "string list"

datatype config_error =
    PathRequired | ConfigUnreadable | ConfigUnparsable | ListenRequired | KeyRequired | BadLogLevel
  | AuthorizedKeysRequired | BadRecordingFormat | NegativeRetries | BadProvider | BadRoutingMode
  | EmptyServer nat | BadServer nat target_error | NoServers

section \<open>Defaults\<close>

definition envBool :: "(string \<Rightarrow> string) \<Rightarrow> string \<Rightarrow> bool \<Rightarrow> bool" where
  "envBool getenv name defaultValue =
     (let value = TrimSpace (getenv name) in
      if value = [] then defaultValue
      else value = ''1'' \<or> EqualFold value ''true'' \<or> EqualFold value ''yes'')"

definition AutoAcceptClientKeysEnv :: string where
  "AutoAcceptClientKeysEnv = ''SSH_PROXY_AUTO_ACCEPT_CLIENT_KEYS''"

definition DefaultConnectTimeoutSeconds :: int where
  "DefaultConnectTimeoutSeconds = 10"

definition Default :: "(string \<Rightarrow> string) \<Rightarrow> auth_world \<Rightarrow> app_config" where
  "Default getenv W = \<lparr>
     cListen = ''localhost:2222'', cKey = ''./ssh_host_key'', cLogLevel = ''info'',
     cRecordingsDir = ''./recordings'', cAuthorizedKeys = DefaultAuthorizedKeysPath W,
     cAutoAcceptClientKeys = envBool getenv AutoAcceptClientKeysEnv True,
     cAllowDirectCommands = False,
     cInsecureIgnoreHostKey = envBool getenv ''SSH_PROXY_INSECURE_IGNORE_HOSTKEY'' False,
     cRecordingFormat = FormatAsciinema, cRetries = 0,
     cConnectTimeoutSeconds = DefaultConnectTimeoutSeconds,
     cStaticRouting = \<lparr>srEnabled = False, srServers = [], srMode = RoutingModeFailover,
       srRetries = 0, srConnectTimeoutSeconds = 0\<rparr>,
     cMetrics = \<lparr>mEnabled = False, mListen = ''127.0.0.1:9090'', mPath = ''/metrics''\<rparr>,
     cSSO = \<lparr>ssoEnabled = False, ssoProvider = DefaultProvider, ssoBaseURL = DefaultBaseURL,
       ssoRealm = DefaultRealm, ssoClientID = DefaultClientID, ssoClientSecret = [],
       ssoScope = DefaultScope, ssoAuthTimeoutSeconds = DefaultAuthTimeoutSeconds,
       ssoPollIntervalSeconds = DefaultPollIntervalSeconds,
       ssoConnectTimeoutSeconds = DefaultRequestTimeoutSeconds,
       ssoEnforceSSHUserMatch = True, ssoInsecureSkipVerify = False\<rparr>,
     cTrustedCACerts = [], cTrustedHostCACerts = []\<rparr>"

section \<open>Validation\<close>

text \<open>The loop over the servers, from index \<open>i\<close>: the trimmed list, or the first error.\<close>

fun validate_servers :: "unicode \<Rightarrow> nat \<Rightarrow> string list \<Rightarrow> config_error + string list" where
  "validate_servers U i [] = Inr []"
| "validate_servers U i (target0 # servers) =
     (let target = TrimSpace target0 in
      if target = [] then Inl (EmptyServer i)
      else (case ValidateTargetAddress U target of
          Some e \<Rightarrow> Inl (BadServer i e)
        | None \<Rightarrow> try_bind (validate_servers U (Suc i) servers) (\<lambda>rest. Inr (target # rest))))"

definition or_default :: "string \<Rightarrow> string \<Rightarrow> string" where
  "or_default value fallback = (if TrimSpace value = [] then fallback else value)"

definition or_default_int :: "int \<Rightarrow> int \<Rightarrow> int" where
  "or_default_int value fallback = (if value \<le> 0 then fallback else value)"

definition validate_metrics :: "metrics_config \<Rightarrow> metrics_config" where
  "validate_metrics m = m\<lparr>
     mListen := or_default (mListen m) ''127.0.0.1:9090'',
     mPath := (if TrimSpace (mPath m) = [] then ''/metrics''
       else if \<not> HasPrefix (mPath m) ''/'' then ''/'' @ TrimLeft (mPath m) ''/'' else mPath m)\<rparr>"

definition validate_sso :: "sso_settings \<Rightarrow> sso_settings" where
  "validate_sso s = s\<lparr>
     ssoBaseURL := or_default (ssoBaseURL s) DefaultBaseURL,
     ssoRealm := or_default (ssoRealm s) DefaultRealm,
     ssoClientID := or_default (ssoClientID s) DefaultClientID,
     ssoScope := or_default (ssoScope s) DefaultScope,
     ssoAuthTimeoutSeconds := or_default_int (ssoAuthTimeoutSeconds s) DefaultAuthTimeoutSeconds,
     ssoPollIntervalSeconds := or_default_int (ssoPollIntervalSeconds s) DefaultPollIntervalSeconds,
     ssoConnectTimeoutSeconds := or_default_int (ssoConnectTimeoutSeconds s) DefaultRequestTimeoutSeconds\<rparr>"

text \<open>
  \<open>Validate\<close>: the error, or the receiver as the method leaves it. The only caller drops the
  receiver when it gets an error.
\<close>

definition Validate :: "unicode \<Rightarrow> app_config \<Rightarrow> config_error + app_config" where
  "Validate U c =
     (if TrimSpace (cListen c) = [] then Inl ListenRequired
      else if TrimSpace (cKey c) = [] then Inl KeyRequired
      else
        (let level = TrimSpace (cLogLevel c);
             level = (if level = [] then ''info'' else level);
             c = c\<lparr>cLogLevel := level\<rparr> in
         if level \<notin> {''error'', ''info'', ''debug''} then Inl BadLogLevel
         else
           (let c = c\<lparr>cRecordingsDir := or_default (cRecordingsDir c) ''./recordings''\<rparr> in
            if \<not> cAutoAcceptClientKeys c \<and> TrimSpace (cAuthorizedKeys c) = [] then Inl AuthorizedKeysRequired
            else if \<not> IsSupportedFormat U (cRecordingFormat c) then Inl BadRecordingFormat
            else if cRetries c < 0 then Inl NegativeRetries
            else
              (let c = c\<lparr>cConnectTimeoutSeconds := or_default_int (cConnectTimeoutSeconds c) DefaultConnectTimeoutSeconds,
                        cMetrics := validate_metrics (cMetrics c)\<rparr>;
                   c = c\<lparr>cSSO := (cSSO c)\<lparr>ssoProvider := NormalizeProvider U (ssoProvider (cSSO c))\<rparr>\<rparr> in
               if \<not> IsSupportedProvider U (ssoProvider (cSSO c)) then Inl BadProvider
               else
                 (let c = c\<lparr>cSSO := validate_sso (cSSO c)\<rparr>;
                      c = c\<lparr>cStaticRouting := (cStaticRouting c)\<lparr>srMode := NormalizeRoutingMode U (srMode (cStaticRouting c))\<rparr>\<rparr> in
                  if \<not> IsSupportedRoutingMode U (srMode (cStaticRouting c)) then Inl BadRoutingMode
                  else try_bind (validate_servers U 0 (srServers (cStaticRouting c))) (\<lambda>servers.
                    let c = c\<lparr>cStaticRouting := (cStaticRouting c)\<lparr>srServers := servers\<rparr>\<rparr> in
                    if srEnabled (cStaticRouting c) \<and> servers = [] then Inl NoServers else Inr c))))))"

section \<open>Loading\<close>

definition applyLegacyRoutingFallbacks :: "string list \<Rightarrow> app_config \<Rightarrow> app_config" where
  "applyLegacyRoutingFallbacks raw c =
     (let c = (if ''retries'' \<notin> set raw \<and> srRetries (cStaticRouting c) > 0
               then c\<lparr>cRetries := srRetries (cStaticRouting c)\<rparr> else c)
      in if ''connect_timeout_seconds'' \<notin> set raw \<and> srConnectTimeoutSeconds (cStaticRouting c) > 0
         then c\<lparr>cConnectTimeoutSeconds := srConnectTimeoutSeconds (cStaticRouting c)\<rparr> else c)"

text \<open>
  \<open>decode_keys\<close> gives the keys of the top-level JSON object; \<open>decode_into\<close> overwrites the
  fields of a configuration that the document sets.
\<close>

definition Load ::
  "unicode \<Rightarrow> (string \<Rightarrow> string) \<Rightarrow> auth_world \<Rightarrow> (bytes \<Rightarrow> string list option) \<Rightarrow> (bytes \<Rightarrow> app_config \<Rightarrow> app_config option)
     \<Rightarrow> string \<Rightarrow> config_error + app_config" where
  "Load U getenv W decode_keys decode_into configPath =
     (if TrimSpace configPath = [] then Inl PathRequired
      else (case ReadFile W configPath of
          None \<Rightarrow> Inl ConfigUnreadable
        | Some data \<Rightarrow>
            (case decode_keys data of
               None \<Rightarrow> Inl ConfigUnparsable
             | Some raw \<Rightarrow>
                 (case decode_into data (Default getenv W) of
                    None \<Rightarrow> Inl ConfigUnparsable
                  | Some cfg \<Rightarrow>
                      (let cfg = cfg\<lparr>cRecordingFormat := NormalizeFormat U (cRecordingFormat cfg)\<rparr>;
                           cfg = cfg\<lparr>cStaticRouting := (cStaticRouting cfg)\<lparr>srMode := NormalizeRoutingMode U (srMode (cStaticRouting cfg))\<rparr>\<rparr>
                       in Validate U (applyLegacyRoutingFallbacks raw cfg))))))"

section \<open>What validation guarantees\<close>

definition server_ok :: "unicode \<Rightarrow> string \<Rightarrow> bool" where
  "server_ok U target \<longleftrightarrow> target \<noteq> [] \<and> TrimSpace target = target \<and> ValidateTargetAddress U target = None"

definition config_ok :: "unicode \<Rightarrow> app_config \<Rightarrow> bool" where
  "config_ok U c \<longleftrightarrow>
     TrimSpace (cListen c) \<noteq> [] \<and> TrimSpace (cKey c) \<noteq> []
     \<and> cLogLevel c \<in> {''error'', ''info'', ''debug''}
     \<and> TrimSpace (cRecordingsDir c) \<noteq> []
     \<and> (cAutoAcceptClientKeys c \<or> TrimSpace (cAuthorizedKeys c) \<noteq> [])
     \<and> IsSupportedFormat U (cRecordingFormat c)
     \<and> 0 \<le> cRetries c \<and> 0 < cConnectTimeoutSeconds c
     \<and> TrimSpace (mListen (cMetrics c)) \<noteq> [] \<and> HasPrefix (mPath (cMetrics c)) ''/'' \<and> TrimSpace (mPath (cMetrics c)) \<noteq> []
     \<and> IsSupportedProvider U (ssoProvider (cSSO c))
     \<and> TrimSpace (ssoBaseURL (cSSO c)) \<noteq> [] \<and> TrimSpace (ssoRealm (cSSO c)) \<noteq> []
     \<and> TrimSpace (ssoClientID (cSSO c)) \<noteq> [] \<and> TrimSpace (ssoScope (cSSO c)) \<noteq> []
     \<and> 0 < ssoAuthTimeoutSeconds (cSSO c) \<and> 0 < ssoPollIntervalSeconds (cSSO c) \<and> 0 < ssoConnectTimeoutSeconds (cSSO c)
     \<and> IsSupportedRoutingMode U (srMode (cStaticRouting c))
     \<and> list_all (server_ok U) (srServers (cStaticRouting c))
     \<and> (\<not> srEnabled (cStaticRouting c) \<or> srServers (cStaticRouting c) \<noteq> [])"

lemma validate_servers_ok: "validate_servers U i ts = Inr us \<Longrightarrow> us = map TrimSpace ts \<and> list_all (server_ok U) us"
  by (induction ts arbitrary: i us) (auto simp: Let_def try_bind_eq_Inr server_ok_def split: if_splits option.splits)

lemma validate_servers_id: "list_all (server_ok U) ts \<Longrightarrow> validate_servers U i ts = Inr ts"
  by (induction ts arbitrary: i) (auto simp: server_ok_def Let_def)

lemma or_default_ok: "TrimSpace f \<noteq> [] \<Longrightarrow> TrimSpace (or_default v f) \<noteq> []"
  by (simp add: or_default_def)

lemma or_default_id: "TrimSpace v \<noteq> [] \<Longrightarrow> or_default v f = v"
  by (simp add: or_default_def)

lemma or_default_int_ok: "0 < f \<Longrightarrow> 0 < or_default_int v f"
  by (simp add: or_default_int_def)

lemma or_default_int_id: "0 < v \<Longrightarrow> or_default_int v f = v"
  by (simp add: or_default_int_def)

lemma validate_metrics_ok:
  "TrimSpace (mListen (validate_metrics m)) \<noteq> []" "HasPrefix (mPath (validate_metrics m)) ''/''"
  "TrimSpace (mPath (validate_metrics m)) \<noteq> []"
proof -
  have "TrimSpace ''127.0.0.1:9090'' \<noteq> []" by code_simp
  then show "TrimSpace (mListen (validate_metrics m)) \<noteq> []" by (simp add: validate_metrics_def or_default_ok)
  show slash: "HasPrefix (mPath (validate_metrics m)) ''/''"
    by (simp add: validate_metrics_def HasPrefix_def)
  then have "CHR ''/'' \<in> set (mPath (validate_metrics m))"
    by (cases "mPath (validate_metrics m)") (auto simp: HasPrefix_def)
  then show "TrimSpace (mPath (validate_metrics m)) \<noteq> []"
    by (rule TrimSpace_not_Nil) (simp_all add: byte_def IsSpace_def)
qed

lemma validate_metrics_id:
  "TrimSpace (mListen m) \<noteq> [] \<Longrightarrow> HasPrefix (mPath m) ''/'' \<Longrightarrow> TrimSpace (mPath m) \<noteq> [] \<Longrightarrow> validate_metrics m = m"
  by (simp add: validate_metrics_def or_default_id)

lemma validate_sso_ok:
  "TrimSpace (ssoBaseURL (validate_sso s)) \<noteq> []" "TrimSpace (ssoRealm (validate_sso s)) \<noteq> []"
  "TrimSpace (ssoClientID (validate_sso s)) \<noteq> []" "TrimSpace (ssoScope (validate_sso s)) \<noteq> []"
  "0 < ssoAuthTimeoutSeconds (validate_sso s)" "0 < ssoPollIntervalSeconds (validate_sso s)"
  "0 < ssoConnectTimeoutSeconds (validate_sso s)" "ssoProvider (validate_sso s) = ssoProvider s"
proof -
  have "TrimSpace DefaultBaseURL \<noteq> []" "TrimSpace DefaultRealm \<noteq> []" "TrimSpace DefaultClientID \<noteq> []"
    "TrimSpace DefaultScope \<noteq> []" by code_simp+
  then show "TrimSpace (ssoBaseURL (validate_sso s)) \<noteq> []" "TrimSpace (ssoRealm (validate_sso s)) \<noteq> []"
    "TrimSpace (ssoClientID (validate_sso s)) \<noteq> []" "TrimSpace (ssoScope (validate_sso s)) \<noteq> []"
    by (simp_all add: validate_sso_def or_default_ok)
  show "0 < ssoAuthTimeoutSeconds (validate_sso s)" "0 < ssoPollIntervalSeconds (validate_sso s)"
    "0 < ssoConnectTimeoutSeconds (validate_sso s)" "ssoProvider (validate_sso s) = ssoProvider s"
    by (simp_all add: validate_sso_def or_default_int_ok DefaultAuthTimeoutSeconds_def
        DefaultPollIntervalSeconds_def DefaultRequestTimeoutSeconds_def)
qed

lemma validate_sso_id:
  "TrimSpace (ssoBaseURL s) \<noteq> [] \<Longrightarrow> TrimSpace (ssoRealm s) \<noteq> [] \<Longrightarrow> TrimSpace (ssoClientID s) \<noteq> []
    \<Longrightarrow> TrimSpace (ssoScope s) \<noteq> [] \<Longrightarrow> 0 < ssoAuthTimeoutSeconds s \<Longrightarrow> 0 < ssoPollIntervalSeconds s
    \<Longrightarrow> 0 < ssoConnectTimeoutSeconds s \<Longrightarrow> validate_sso s = s"
  by (simp add: validate_sso_def or_default_id or_default_int_id)

lemma log_levels_trim: "l \<in> {''error'', ''info'', ''debug''} \<Longrightarrow> TrimSpace l = l \<and> l \<noteq> []"
proof -
  have "TrimSpace ''error'' = ''error''" "TrimSpace ''info'' = ''info''" "TrimSpace ''debug'' = ''debug''" by code_simp+
  then show "l \<in> {''error'', ''info'', ''debug''} \<Longrightarrow> TrimSpace l = l \<and> l \<noteq> []" by auto
qed

definition effective_level :: "app_config \<Rightarrow> string" where
  "effective_level c = (if TrimSpace (cLogLevel c) = [] then ''info'' else TrimSpace (cLogLevel c))"

definition validated :: "unicode \<Rightarrow> app_config \<Rightarrow> string list \<Rightarrow> app_config" where
  "validated U c servers = c\<lparr>cLogLevel := effective_level c,
      cRecordingsDir := or_default (cRecordingsDir c) ''./recordings'',
      cConnectTimeoutSeconds := or_default_int (cConnectTimeoutSeconds c) DefaultConnectTimeoutSeconds,
      cMetrics := validate_metrics (cMetrics c),
      cSSO := validate_sso ((cSSO c)\<lparr>ssoProvider := NormalizeProvider U (ssoProvider (cSSO c))\<rparr>),
      cStaticRouting := (cStaticRouting c)\<lparr>srMode := NormalizeRoutingMode U (srMode (cStaticRouting c)), srServers := servers\<rparr>\<rparr>"

lemma Validate_alt:
  "Validate U c =
     (if TrimSpace (cListen c) = [] then Inl ListenRequired
      else if TrimSpace (cKey c) = [] then Inl KeyRequired
      else if effective_level c \<notin> {''error'', ''info'', ''debug''} then Inl BadLogLevel
      else if \<not> cAutoAcceptClientKeys c \<and> TrimSpace (cAuthorizedKeys c) = [] then Inl AuthorizedKeysRequired
      else if \<not> IsSupportedFormat U (cRecordingFormat c) then Inl BadRecordingFormat
      else if cRetries c < 0 then Inl NegativeRetries
      else if \<not> IsSupportedProvider U (NormalizeProvider U (ssoProvider (cSSO c))) then Inl BadProvider
      else if \<not> IsSupportedRoutingMode U (NormalizeRoutingMode U (srMode (cStaticRouting c))) then Inl BadRoutingMode
      else (case validate_servers U 0 (srServers (cStaticRouting c)) of
          Inl e \<Rightarrow> Inl e
        | Inr servers \<Rightarrow>
            if srEnabled (cStaticRouting c) \<and> servers = [] then Inl NoServers
            else Inr (validated U c servers)))"
  by (simp only: Validate_def Let_def effective_level_def [symmetric])
     (simp add: validated_def try_bind_def split: sum.splits)

lemma Validate_InrD:
  assumes "Validate U c = Inr c'"
  shows "\<exists>servers. c' = validated U c servers
    \<and> TrimSpace (cListen c) \<noteq> [] \<and> TrimSpace (cKey c) \<noteq> [] \<and> effective_level c \<in> {''error'', ''info'', ''debug''}
    \<and> (cAutoAcceptClientKeys c \<or> TrimSpace (cAuthorizedKeys c) \<noteq> []) \<and> IsSupportedFormat U (cRecordingFormat c)
    \<and> 0 \<le> cRetries c \<and> IsSupportedProvider U (NormalizeProvider U (ssoProvider (cSSO c)))
    \<and> IsSupportedRoutingMode U (NormalizeRoutingMode U (srMode (cStaticRouting c)))
    \<and> validate_servers U 0 (srServers (cStaticRouting c)) = Inr servers
    \<and> (\<not> srEnabled (cStaticRouting c) \<or> servers \<noteq> [])"
  using assms unfolding Validate_alt by (simp split: if_splits sum.splits)

text \<open>The switches that decide about keys, commands, host keys, the second factor and routing.\<close>

definition switches :: "app_config \<Rightarrow> bool list \<times> string list" where
  "switches c = ([cAutoAcceptClientKeys c, cAllowDirectCommands c, cInsecureIgnoreHostKey c, ssoEnabled (cSSO c),
      ssoEnforceSSHUserMatch (cSSO c), ssoInsecureSkipVerify (cSSO c), srEnabled (cStaticRouting c)], cTrustedCACerts c)"

lemma Validate_ok:
  assumes "Validate U c = Inr c'"
  shows "config_ok U c' \<and> switches c' = switches c
    \<and> srServers (cStaticRouting c') = map TrimSpace (srServers (cStaticRouting c))
    \<and> cRetries c' = cRetries c \<and> cConnectTimeoutSeconds c' = or_default_int (cConnectTimeoutSeconds c) DefaultConnectTimeoutSeconds"
proof -
  from Validate_InrD [OF assms] obtain servers where
    basics: "TrimSpace (cListen c) \<noteq> []" "TrimSpace (cKey c) \<noteq> []" "effective_level c \<in> {''error'', ''info'', ''debug''}"
      "cAutoAcceptClientKeys c \<or> TrimSpace (cAuthorizedKeys c) \<noteq> []" "IsSupportedFormat U (cRecordingFormat c)"
      "0 \<le> cRetries c" "IsSupportedProvider U (NormalizeProvider U (ssoProvider (cSSO c)))"
      "IsSupportedRoutingMode U (NormalizeRoutingMode U (srMode (cStaticRouting c)))"
    and servers: "validate_servers U 0 (srServers (cStaticRouting c)) = Inr servers"
      "\<not> srEnabled (cStaticRouting c) \<or> servers \<noteq> []"
    and c': "c' = validated U c servers"
    by blast
  have "TrimSpace ''./recordings'' \<noteq> []" by code_simp
  moreover have "list_all (server_ok U) servers"
    using validate_servers_ok [OF servers(1)] by blast
  ultimately have "config_ok U c'"
    using basics servers(2)
    by (simp del: validate_servers.simps add: c' validated_def config_ok_def or_default_ok or_default_int_ok DefaultConnectTimeoutSeconds_def
        validate_metrics_ok validate_sso_ok)
  with validate_servers_ok [OF servers(1)] show ?thesis
    by (simp add: c' validated_def validate_sso_def switches_def)
qed

text \<open>
  Loading is sound. A configuration that \<open>Load\<close> returns comes from a readable file that
  decodes over the defaults, and it is usable: it has an address to listen on, a key, a known log
  level, an authorized-keys file unless keys are accepted automatically, a supported recording
  format, provider and routing mode, positive timeouts, and only servers that are trimmed and
  pass the target address check, at least one when static routing is on. The switches that decide
  about keys, commands, host keys, the second factor and routing are those of the document. The
  retries and the timeout are the top-level ones; the legacy values under the static routing
  are used, if positive, exactly when the top-level key is missing.
\<close>

lemma load_sound:
  assumes "Load U getenv W decode_keys decode_into path = Inr c"
  shows "\<exists>data raw cfg. ReadFile W path = Some data \<and> decode_keys data = Some raw
    \<and> decode_into data (Default getenv W) = Some cfg
    \<and> config_ok U c \<and> switches c = switches cfg
    \<and> srServers (cStaticRouting c) = map TrimSpace (srServers (cStaticRouting cfg))
    \<and> cRetries c = (if ''retries'' \<in> set raw \<or> srRetries (cStaticRouting cfg) \<le> 0 then cRetries cfg
         else srRetries (cStaticRouting cfg))
    \<and> cConnectTimeoutSeconds c = or_default_int
        (if ''connect_timeout_seconds'' \<in> set raw \<or> srConnectTimeoutSeconds (cStaticRouting cfg) \<le> 0
         then cConnectTimeoutSeconds cfg else srConnectTimeoutSeconds (cStaticRouting cfg)) DefaultConnectTimeoutSeconds"
proof -
  obtain data raw cfg where read: "ReadFile W path = Some data" "decode_keys data = Some raw"
    "decode_into data (Default getenv W) = Some cfg"
    and valid: "Validate U (applyLegacyRoutingFallbacks raw (cfg\<lparr>cRecordingFormat := NormalizeFormat U (cRecordingFormat cfg),
        cStaticRouting := (cStaticRouting cfg)\<lparr>srMode := NormalizeRoutingMode U (srMode (cStaticRouting cfg))\<rparr>\<rparr>)) = Inr c"
    using assms by (auto simp: Load_def Let_def split: if_splits option.splits)
  show ?thesis
    by (intro exI [of _ data] exI [of _ raw] exI [of _ cfg])
      (use Validate_ok [OF valid] read in \<open>simp add: applyLegacyRoutingFallbacks_def switches_def Let_def del: Validate_def\<close>)
qed

text \<open>
  Validation is idempotent: a configuration that satisfies what validation guarantees, with
  its provider and routing mode in normal form, is accepted and returned unchanged.
\<close>

lemma validate_fixpoint:
  assumes ok: "config_ok U c" and prov: "NormalizeProvider U (ssoProvider (cSSO c)) = ssoProvider (cSSO c)"
    and mode: "NormalizeRoutingMode U (srMode (cStaticRouting c)) = srMode (cStaticRouting c)"
  shows "Validate U c = Inr c"
proof -
  have level: "TrimSpace (cLogLevel c) = cLogLevel c" "cLogLevel c \<noteq> []"
    using log_levels_trim ok unfolding config_ok_def by metis+
  have servers: "validate_servers U 0 (srServers (cStaticRouting c)) = Inr (srServers (cStaticRouting c))"
    using ok by (intro validate_servers_id) (simp add: config_ok_def)
  have "validated U c (srServers (cStaticRouting c)) = c"
    using ok prov mode level
    by (simp add: validated_def config_ok_def effective_level_def or_default_id or_default_int_id
        validate_metrics_id validate_sso_id)
  with ok prov mode level servers show ?thesis
    by (auto simp: Validate_alt config_ok_def effective_level_def)
qed

lemma DefaultAuthorizedKeysPath_nonblank: "TrimSpace (DefaultAuthorizedKeysPath W) \<noteq> []"
proof (cases "\<exists>home. UserHomeDir W = Some home \<and> TrimSpace home \<noteq> []")
  case False
  have "TrimSpace ''./authorized_keys'' \<noteq> []" by code_simp
  with False show ?thesis by (auto simp: DefaultAuthorizedKeysPath_def split: option.splits)
next
  case True
  then obtain home where home: "UserHomeDir W = Some home" "TrimSpace home \<noteq> []" by blast
  then have ne: "home \<noteq> []" by auto
  let ?n = "''authorized_keys''"
  have "CHR ''/'' \<notin> set ?n" by simp
  then have "clean_parts r (home @ CHR ''/'' # ''.ssh'' @ CHR ''/'' # ?n)
      = clean_parts r (home @ CHR ''/'' # ''.ssh'') @ [?n]" for r
    using Split_append [of "home @ CHR ''/'' # ''.ssh''" "CHR ''/''" ?n]
    by (simp add: clean_parts_def clean_step_def)
  then have "DefaultAuthorizedKeysPath W
      = unclean (is_rooted home) (clean_parts (is_rooted home) (home @ CHR ''/'' # ''.ssh'') @ [?n])"
    using home ne by (simp add: DefaultAuthorizedKeysPath_def filepath_Join_def Clean_def is_rooted_def)
  moreover have "CHR ''z'' \<in> set (Join (ps @ [?n]) sep)" for ps sep
    by (cases "ps = []") (simp_all add: Join_append_last)
  ultimately have "CHR ''z'' \<in> set (DefaultAuthorizedKeysPath W)" by (simp add: unclean_def)
  then show ?thesis by (rule TrimSpace_not_Nil) (simp_all add: byte_def IsSpace_def)
qed

text \<open>
  The defaults are valid. In every environment, whatever its variables say and whether or
  not there is a home directory, the default configuration passes validation unchanged; so a
  document that sets nothing starts the proxy with SSO off, direct commands off and the static
  routes off, and only the two documented variables change how keys are checked.
\<close>

lemma default_config_valid:
  "Validate U (Default getenv W) = Inr (Default getenv W)
   \<and> \<not> cAllowDirectCommands (Default getenv W) \<and> \<not> ssoEnabled (cSSO (Default getenv W))
   \<and> ssoEnforceSSHUserMatch (cSSO (Default getenv W)) \<and> \<not> srEnabled (cStaticRouting (Default getenv W))
   \<and> (cInsecureIgnoreHostKey (Default getenv W) \<longleftrightarrow>
        (let v = TrimSpace (getenv ''SSH_PROXY_INSECURE_IGNORE_HOSTKEY'')
         in v = ''1'' \<or> EqualFold v ''true'' \<or> EqualFold v ''yes''))"
proof -
  have words: "TrimSpace ''localhost:2222'' \<noteq> []" "TrimSpace ''./ssh_host_key'' \<noteq> []" "TrimSpace ''./recordings'' \<noteq> []"
    "TrimSpace ''127.0.0.1:9090'' \<noteq> []" "TrimSpace ''/metrics'' \<noteq> []" "HasPrefix ''/metrics'' ''/''"
    "TrimSpace DefaultBaseURL \<noteq> []" "TrimSpace DefaultRealm \<noteq> []" "TrimSpace DefaultClientID \<noteq> []"
    "TrimSpace DefaultScope \<noteq> []" "\<not> EqualFold [] ''true''" "\<not> EqualFold [] ''yes''" by code_simp+
  have canon: "NormalizeProvider U DefaultProvider = DefaultProvider" "IsSupportedProvider U DefaultProvider"
    "NormalizeRoutingMode U RoutingModeFailover = RoutingModeFailover" "IsSupportedRoutingMode U RoutingModeFailover"
    "IsSupportedFormat U FormatAsciinema"
    using provider.norm_keyword [of DefaultProvider] provider.keyword_supported [of DefaultProvider]
      routing_mode.norm_keyword [of RoutingModeFailover] routing_mode.keyword_supported [of RoutingModeFailover]
      recording_format.keyword_supported [of FormatAsciinema]
    by (simp_all add: routing_modes_def)
  have "config_ok U (Default getenv W)"
    using words canon DefaultAuthorizedKeysPath_nonblank
    by (simp add: config_ok_def Default_def DefaultConnectTimeoutSeconds_def DefaultAuthTimeoutSeconds_def
        DefaultPollIntervalSeconds_def DefaultRequestTimeoutSeconds_def)
  then have "Validate U (Default getenv W) = Inr (Default getenv W)"
    by (rule validate_fixpoint) (simp_all add: Default_def canon)
  with words show ?thesis by (auto simp: Default_def envBool_def Let_def)
qed

section \<open>A concrete configuration\<close>

definition sample_app_config :: app_config where
  "sample_app_config = (Default (\<lambda>_. []) sample_world)\<lparr>cLogLevel := [], cRetries := 2,
     cStaticRouting := \<lparr>srEnabled = True, srServers = ['' db:2200'', ''alice@web''], srMode = ''round_robin'',
       srRetries = 0, srConnectTimeoutSeconds = 0\<rparr>\<rparr>"

lemma sample_validates: "Validate ascii_tables sample_app_config = Inr (validated ascii_tables sample_app_config [''db:2200'', ''alice@web''])"
  by code_simp

text \<open>A document with legacy retries: its bytes stand for what the decoder makes of them.\<close>

definition sample_load :: "config_error + app_config" where
  "sample_load = Load ascii_tables (\<lambda>_. []) (sample_world\<lparr>ReadFile := (\<lambda>_. Some ''doc'')\<rparr>)
     (\<lambda>_. Some [''static_routing'', ''connect_timeout_seconds''])
     (\<lambda>_ c. Some (c\<lparr>cConnectTimeoutSeconds := 7, cStaticRouting := \<lparr>srEnabled = True, srServers = ['' db:2200''],
        srMode = '' Round_Robin'', srRetries = 4, srConnectTimeoutSeconds = 9\<rparr>\<rparr>)) ''config.json''"

lemma load_sound_witness:
  "case sample_load of Inl e \<Rightarrow> False
   | Inr c \<Rightarrow> config_ok ascii_tables c \<and> cRetries c = 4 \<and> cConnectTimeoutSeconds c = 7
       \<and> srServers (cStaticRouting c) = [TrimSpace '' db:2200'']"
proof (cases sample_load)
  case (Inl e)
  have "isl sample_load = False" by code_simp
  then show ?thesis unfolding Inl by simp
next
  case (Inr c)
  from load_sound [OF Inr [unfolded sample_load_def]] show ?thesis
    unfolding Inr by (auto simp: or_default_int_def)
qed

end
