(* ===== verification/Connection.thy ===== *)
theory Connection
  imports Channels Security App_Config
begin

text \<open>
  \<open>HandleConnection\<close> of \<open>internal/server/server.go\<close> and its call from \<open>cmd/ssh-proxy-server/main.go\<close>:
  the state a connection starts with, and the connection as a transition system. Its channels
  run concurrently on one shared state. One iteration of a request loop is one step; a session's
  handler takes one step per access to the shared state (each accessor holds the mutex for its
  whole body); the steps of different channels interleave freely. What the outside decides (the
  device flow's answer, whether a dial succeeds, the handles it returns, that the remote command
  has ended) is part of the action. A step that panics ends the process and has no successor.
\<close>

section \<open>Start-up\<close>

record routing_config =
  StaticEnabled :: bool
  rStaticTargets :: "string list"
  rMode :: string
  rConnectTimeout :: duration
  rRetries :: int

definition main_routing_config :: "app_config \<Rightarrow> routing_config" where
  "main_routing_config cfg = \<lparr>
     StaticEnabled = srEnabled (cStaticRouting cfg), rStaticTargets = srServers (cStaticRouting cfg),
     rMode = srMode (cStaticRouting cfg), rConnectTimeout = seconds (cConnectTimeoutSeconds cfg),
     rRetries = cRetries cfg\<rparr>"

definition main_sso_config :: "app_config \<Rightarrow> sso_config" where
  "main_sso_config cfg = (let s = cSSO cfg in \<lparr>
     cfgEnabled = ssoEnabled s, cfgProvider = ssoProvider s, cfgBaseURL = ssoBaseURL s, cfgRealm = ssoRealm s,
     cfgClientID = ssoClientID s, cfgClientSecret = ssoClientSecret s, cfgScope = ssoScope s,
     cfgAuthTimeout = seconds (ssoAuthTimeoutSeconds s), cfgPollInterval = seconds (ssoPollIntervalSeconds s),
     cfgRequestTimeout = seconds (ssoConnectTimeoutSeconds s),
     cfgEnforceUserMatch = ssoEnforceSSHUserMatch s, cfgInsecureSkipVerify = ssoInsecureSkipVerify s\<rparr>)"

text \<open>The public-key callback: the answer, and the key it remembers.\<close>

definition public_key_callback ::
  "auth_world \<Rightarrow> string \<Rightarrow> public_key list \<Rightarrow> bool \<Rightarrow> public_key \<Rightarrow> public_key option \<Rightarrow> bool \<times> public_key option" where
  "public_key_callback W path cas auto key clientKey =
     (if isAuthorizedClientKeyWithCA W key path cas auto = Some (Inr ()) then (True, Some key)
      else (False, clientKey))"

definition positive_or :: "int \<Rightarrow> int \<Rightarrow> int" where
  "positive_or value fallback = (if value \<le> 0 then fallback else value)"

definition nonempty_or :: "string \<Rightarrow> string \<Rightarrow> string" where
  "nonempty_or value fallback = (if value = [] then fallback else value)"

text \<open>The session state of a new connection.\<close>

definition connection_state ::
  "unicode \<Rightarrow> string \<Rightarrow> public_key option \<Rightarrow> handle \<Rightarrow> string \<Rightarrow> bool \<Rightarrow> bool \<Rightarrow> string \<Rightarrow> routing_config \<Rightarrow> sso_config
     \<Rightarrow> public_key list \<Rightarrow> session_state" where
  "connection_state U user clientKey sshConn recordingsDir allowDirectCommands insecureIgnoreHostKey
     recordingFormat routingConfig ssoConfig trustedHostCACerts =
     zero_state\<lparr>
       ClientUser := user, ClientKey := clientKey, ClientConn := Some sshConn,
       AllowDirectCommands := allowDirectCommands, InsecureIgnoreHostKey := insecureIgnoreHostKey,
       RecordingFormat := NormalizeFormat U recordingFormat,
       StaticRoutingEnabled := StaticEnabled routingConfig, StaticTargets := rStaticTargets routingConfig,
       StaticRoutingMode := NormalizeRoutingMode U (rMode routingConfig),
       ConnectTimeout := positive_or (rConnectTimeout routingConfig) (seconds DefaultConnectTimeoutSeconds),
       ConnectRetries := (if rRetries routingConfig < 0 then 0 else rRetries routingConfig),
       SSOEnabled := cfgEnabled ssoConfig, SSOProvider := NormalizeProvider U (cfgProvider ssoConfig),
       SSOBaseURL := nonempty_or (TrimSpace (cfgBaseURL ssoConfig)) DefaultBaseURL,
       SSORealm := nonempty_or (TrimSpace (cfgRealm ssoConfig)) DefaultRealm,
       SSOClientID := nonempty_or (TrimSpace (cfgClientID ssoConfig)) DefaultClientID,
       SSOClientSecret := TrimSpace (cfgClientSecret ssoConfig),
       SSOScope := nonempty_or (TrimSpace (cfgScope ssoConfig)) DefaultScope,
       SSOAuthTimeout := positive_or (cfgAuthTimeout ssoConfig) (seconds DefaultAuthTimeoutSeconds),
       SSOPollInterval := positive_or (cfgPollInterval ssoConfig) (seconds DefaultPollIntervalSeconds),
       SSORequestTimeout := positive_or (cfgRequestTimeout ssoConfig) (seconds DefaultRequestTimeoutSeconds),
       SSOEnforceUserMatch := cfgEnforceUserMatch ssoConfig,
       SSOInsecureSkipVerify := cfgInsecureSkipVerify ssoConfig,
       RecordingsDir := recordingsDir, EnvVars := Some [], TrustedHostCASerts := trustedHostCACerts\<rparr>"

section \<open>The transition system\<close>

text \<open>
  How far a channel's session is, and what the handler holds in local variables there: in
  \<open>Routed\<close> and \<open>Dialling\<close> the targets it still has to try, all rounds of them, in order; \<open>Waiting\<close>
  is the call of \<open>Wait\<close>, which returns when the remote command ends. \<open>Releasing n\<close> has deferred writes still to do: with 2 the session and the client, with 1 the
  client. The three copy loops are goroutines of their own; each picks up the recorder from the
  shared state when it gets to run, which may be after the session has ended.
\<close>

datatype copy_loop = InputLoop | StdoutLoop | StderrLoop

datatype phase =
    Idle | Starting spawned | Confirming spawned | Admitted spawned | Routed spawned "string list"
  | Dialling spawned "string list" string string string | Reached spawned handle string string string
  | Dialled spawned handle | InSession spawned handle handle | Attached spawned handle handle handle
  | Running spawned handle handle handle | Waiting spawned handle handle handle | Releasing nat | Ended

text \<open>The recorder a channel made for itself is a ghost: no step reads it.\<close>

record conn_channel =
  ccLocals :: channel_locals
  ccPhase :: phase
  ccLoops :: "copy_loop list"
  ccPicked :: "(copy_loop \<times> handle option) list"
  ccOwn :: "handle option"

definition open_channel :: conn_channel where
  "open_channel = \<lparr>ccLocals = new_channel, ccPhase = Idle, ccLoops = [], ccPicked = [], ccOwn = None\<rparr>"

text \<open>So is the identity that was confirmed last.\<close>

record conn =
  cnState :: session_state
  cnChannels :: "conn_channel list"
  cnCounter :: u64
  cnIdentity :: "identity option"

definition start_conn :: "session_state \<Rightarrow> u64 \<Rightarrow> conn" where
  "start_conn st counter = \<lparr>cnState = st, cnChannels = [], cnCounter = counter, cnIdentity = None\<rparr>"

datatype action =
    OpenChannel string "handle option" | GlobalRequest request | ChannelRequest nat request
  | Check nat | Confirmed nat identity | ConfirmationFails nat
  | Route nat | Dial nat | DialFails nat | DialSucceeds nat handle | Publish nat | GiveUp nat
  | NewSession nat handle | Attach nat handle | SpawnLoops nat | PickUp nat copy_loop
  | StartRemote nat | WaitReturns nat | Fail nat | Release nat

text \<open>The actions of the goroutine that runs the session of a channel.\<close>

fun session_action :: "nat \<Rightarrow> action \<Rightarrow> bool" where
  "session_action i (OpenChannel channelType accepted) = False"
| "session_action i (GlobalRequest req) = False"
| "session_action i (ChannelRequest j req) = False"
| "session_action i (PickUp j l) = False"
| "session_action i (Check j) = (i = j)" | "session_action i (Confirmed j identity) = (i = j)"
| "session_action i (ConfirmationFails j) = (i = j)" | "session_action i (Route j) = (i = j)"
| "session_action i (Dial j) = (i = j)" | "session_action i (DialFails j) = (i = j)"
| "session_action i (DialSucceeds j client) = (i = j)" | "session_action i (Publish j) = (i = j)"
| "session_action i (GiveUp j) = (i = j)" | "session_action i (NewSession j session) = (i = j)"
| "session_action i (Attach j r) = (i = j)" | "session_action i (SpawnLoops j) = (i = j)"
| "session_action i (StartRemote j) = (i = j)" | "session_action i (WaitReturns j) = (i = j)"
| "session_action i (Fail j) = (i = j)" | "session_action i (Release j) = (i = j)"

definition on_channel :: "nat \<Rightarrow> (conn_channel \<Rightarrow> conn_channel) \<Rightarrow> conn \<Rightarrow> conn" where
  "on_channel i f c = c\<lparr>cnChannels := (cnChannels c)[i := f (cnChannels c ! i)]\<rparr>"

definition set_phase :: "nat \<Rightarrow> phase \<Rightarrow> conn \<Rightarrow> conn" where
  "set_phase i p = on_channel i (\<lambda>ch. ch\<lparr>ccPhase := p\<rparr>)"

definition set_state :: "state_ptr \<Rightarrow> conn \<Rightarrow> conn" where
  "set_state s c = (case s of None \<Rightarrow> c | Some st \<Rightarrow> c\<lparr>cnState := st\<rparr>)"

definition phase_of :: "nat \<Rightarrow> conn \<Rightarrow> phase" where
  "phase_of i c = (if i < length (cnChannels c) then ccPhase (cnChannels c ! i) else Ended)"

definition command_of :: "spawned \<Rightarrow> string" where
  "command_of w = (case w of SpawnShell \<Rightarrow> [] | SpawnExec command \<Rightarrow> command)"

text \<open>
  The first checks of the handlers: a direct command must be allowed, and the second factor is
  needed unless it is off or done.
\<close>

definition check_phase :: "spawned \<Rightarrow> session_state \<Rightarrow> phase" where
  "check_phase w st =
     (if (case w of SpawnShell \<Rightarrow> False | SpawnExec _ \<Rightarrow> \<not> AllowDirectCommands st) then Ended
      else if \<not> SSOEnabled st \<or> SSOVerified st then Admitted w else Confirming w)"

text \<open>An agent channel is noted before it is accepted, and has a client afterwards.\<close>

definition handleAgentChannel :: "handle option \<Rightarrow> state_ptr \<Rightarrow> state_ptr" where
  "handleAgentChannel accepted state =
     (let state = SetAgentRequested state True in
      case accepted of None \<Rightarrow> state | Some agentClient \<Rightarrow> SetAgentClient state (Some agentClient))"

text \<open>What a connection does on its own account: channels and requests.\<close>

fun request_exec :: "unicode \<Rightarrow> action \<Rightarrow> conn \<Rightarrow> conn option" where
  "request_exec U (OpenChannel channelType accepted) c =
     (if channelType = ''auth-agent@openssh.com'' then
        Some (set_state (handleAgentChannel accepted (Some (cnState c))) c)
      else if channelType \<noteq> ''session'' then Some c
      else (case accepted of
          None \<Rightarrow> Some c
        | Some h \<Rightarrow> Some (c\<lparr>cnChannels := cnChannels c @ [open_channel]\<rparr>)))"
| "request_exec U (GlobalRequest req) c =
     map_option (\<lambda>(s, rs). set_state s c) (handleGlobalRequest U req (Some (cnState c)))"
| "request_exec U (ChannelRequest i req) c =
     (if i < length (cnChannels c) then
        map_option (\<lambda>(ch, s, rs, sp, es). set_state s (on_channel i (\<lambda>cc. cc\<lparr>ccLocals := ch,
            ccPhase := (case sp of None \<Rightarrow> ccPhase cc | Some w \<Rightarrow> Starting w)\<rparr>) c))
          (handleChannelRequest U req (ccLocals (cnChannels c ! i)) (Some (cnState c)))
      else None)"
| "request_exec U _ c = None"

text \<open>
  What \<open>connectToFirstAvailableTarget\<close> does before its loops: the attempts that they are going to
  make, unless the list for their failures cannot be made.
\<close>

definition connect_plan :: "state_ptr \<Rightarrow> string list \<Rightarrow> string list outcome" where
  "connect_plan state targets =
     (if targets = [] then Returns []
      else if \<not> make_strings (total_attempts state targets) then Panics MakeSliceOutOfRange
      else Returns (concat (replicate (nat (connect_rounds state)) targets)))"

text \<open>From the gates to the attempts: the outcome and the counter.\<close>

definition route_session :: "unicode \<Rightarrow> spawned \<Rightarrow> u64 \<Rightarrow> session_state \<Rightarrow> (route_error + string list) outcome \<times> u64" where
  "route_session U w counter st =
     (case resolveTargetCandidates U counter (Some st) [] (command_of w) of
        (Returns (Inr ts), n) \<Rightarrow>
          ((case connect_plan (Some st) ts of Panics p \<Rightarrow> Panics p | Returns attempts \<Rightarrow> Returns (Inr attempts)), n)
      | (r, n) \<Rightarrow> (r, n))"

text \<open>Up to the target: the gates, the route, and one dial after another.\<close>

fun dial_exec :: "unicode \<Rightarrow> action \<Rightarrow> conn \<Rightarrow> conn option" where
  "dial_exec U (Check i) c =
     (case phase_of i c of Starting w \<Rightarrow> Some (set_phase i (check_phase w (cnState c)) c) | _ \<Rightarrow> None)"
| "dial_exec U (Confirmed i identity) c =
     (case phase_of i c of
        Confirming w \<Rightarrow>
          Some (if SSOEnforceUserMatch (cnState c)
                   \<and> \<not> MatchesSSHUser U identity (sso_client_user (Some (cnState c)))
                then set_phase i Ended c
                else set_phase i (Admitted w) (set_state (SetSSOVerified (Some (cnState c)) True)
                   (c\<lparr>cnIdentity := Some identity\<rparr>)))
      | _ \<Rightarrow> None)"
| "dial_exec U (ConfirmationFails i) c =
     (case phase_of i c of Confirming w \<Rightarrow> Some (set_phase i Ended c) | _ \<Rightarrow> None)"
| "dial_exec U (Route i) c =
     (case phase_of i c of
        Admitted w \<Rightarrow>
          (case route_session U w (cnCounter c) (cnState c) of
             (Panics p, n) \<Rightarrow> None
           | (Returns r, n) \<Rightarrow>
               Some (set_phase i (case r of Inl e \<Rightarrow> Ended | Inr ts \<Rightarrow> Routed w ts) (c\<lparr>cnCounter := n\<rparr>)))
      | _ \<Rightarrow> None)"
| "dial_exec U (Dial i) c =
     (case phase_of i c of
        Routed w (t # ts) \<Rightarrow>
          Some (case resolveTargetAddress U t (ClientUser (cnState c)) of
             Inl e \<Rightarrow> set_phase i (Routed w ts) c
           | Inr (u, h, p) \<Rightarrow> set_phase i (Dialling w ts u h p) (set_state (SetTarget (Some (cnState c)) u h p) c))
      | _ \<Rightarrow> None)"
| "dial_exec U (DialFails i) c =
     (case phase_of i c of Dialling w ts u h p \<Rightarrow> Some (set_phase i (Routed w ts) c) | _ \<Rightarrow> None)"
| "dial_exec U (DialSucceeds i client) c =
     (case phase_of i c of
        Dialling w ts u h p \<Rightarrow>
          Some (set_phase i (Reached w client u h p) (set_state (SetTargetClient (Some (cnState c)) (Some client)) c))
      | _ \<Rightarrow> None)"
| "dial_exec U (Publish i) c =
     (case phase_of i c of
        Reached w client u h p \<Rightarrow>
          Some (set_phase i (Dialled w client) (set_state (SetTarget (Some (cnState c)) u h p) c))
      | _ \<Rightarrow> None)"
| "dial_exec U (GiveUp i) c =
     (case phase_of i c of Routed w [] \<Rightarrow> Some (set_phase i Ended c) | _ \<Rightarrow> None)"
| "dial_exec U _ c = None"

text \<open>
  On the target: the session, the recorder, the copy loops, the remote shell or command and its
  end, and the deferred clean-up. \<open>Fail\<close> is any error return on the way.
\<close>

fun target_exec :: "action \<Rightarrow> conn \<Rightarrow> conn option" where
  "target_exec (NewSession i session) c =
     (case phase_of i c of
        Dialled w client \<Rightarrow>
          Some (set_phase i (InSession w client session) (set_state (SetTargetSession (Some (cnState c)) (Some session)) c))
      | _ \<Rightarrow> None)"
| "target_exec (Attach i r) c =
     (case phase_of i c of
        InSession w client session \<Rightarrow>
          Some (on_channel i (\<lambda>ch. ch\<lparr>ccPhase := Attached w client session r, ccOwn := Some r\<rparr>)
            (set_state (SetRecorder (Some (cnState c)) (Some r)) c))
      | _ \<Rightarrow> None)"
| "target_exec (SpawnLoops i) c =
     (case phase_of i c of
        Attached w client session r \<Rightarrow>
          Some (on_channel i (\<lambda>ch. ch\<lparr>ccPhase := Running w client session r,
            ccLoops := [InputLoop, StdoutLoop, StderrLoop]\<rparr>) c)
      | _ \<Rightarrow> None)"
| "target_exec (PickUp i l) c =
     (if i < length (cnChannels c) \<and> l \<in> set (ccLoops (cnChannels c ! i)) then
        Some (on_channel i (\<lambda>ch. ch\<lparr>ccLoops := remove1 l (ccLoops ch),
          ccPicked := ccPicked ch @ [(l, RecorderValue (Some (cnState c)))]\<rparr>) c)
      else None)"
| "target_exec (Fail i) c =
     (case phase_of i c of
        Dialled w client \<Rightarrow> Some (set_phase i (Releasing 1) c)
      | InSession w client session \<Rightarrow> Some (set_phase i (Releasing 2) c)
      | Attached _ _ _ _ \<Rightarrow> Some (set_phase i (Releasing 2) (set_state (SetRecorder (Some (cnState c)) None) c))
      | Running _ _ _ _ \<Rightarrow> Some (set_phase i (Releasing 2) (set_state (SetRecorder (Some (cnState c)) None) c))
      | _ \<Rightarrow> None)"
| "target_exec (StartRemote i) c =
     (case phase_of i c of
        Running w client session r \<Rightarrow> Some (set_phase i (Waiting w client session r) c)
      | _ \<Rightarrow> None)"
| "target_exec (WaitReturns i) c =
     (case phase_of i c of
        Waiting _ _ _ _ \<Rightarrow> Some (set_phase i (Releasing 2) (set_state (SetRecorder (Some (cnState c)) None) c))
      | _ \<Rightarrow> None)"
| "target_exec (Release i) c =
     (case phase_of i c of
        Releasing n \<Rightarrow>
          Some (if n = 2 then set_phase i (Releasing 1) (set_state (SetTargetSession (Some (cnState c)) None) c)
                else set_phase i Ended (set_state (SetTargetClient (Some (cnState c)) None) c))
      | _ \<Rightarrow> None)"
| "target_exec _ c = None"

text \<open>Each action belongs to exactly one of the three groups.\<close>

definition conn_exec :: "unicode \<Rightarrow> action \<Rightarrow> conn \<Rightarrow> conn option" where
  "conn_exec U a c =
     (case request_exec U a c of
        Some c' \<Rightarrow> Some c'
      | None \<Rightarrow> (case dial_exec U a c of Some c' \<Rightarrow> Some c' | None \<Rightarrow> target_exec a c))"

text \<open>The steps of a connection, and what it can reach.\<close>

inductive conn_step :: "unicode \<Rightarrow> conn \<Rightarrow> conn \<Rightarrow> bool" where
  request: "request_exec U a c = Some c' \<Longrightarrow> conn_step U c c'"
| dial: "dial_exec U a c = Some c' \<Longrightarrow> conn_step U c c'"
| target: "target_exec a c = Some c' \<Longrightarrow> conn_step U c c'"

inductive_cases conn_stepE: "conn_step U c c'"

inductive conn_reach :: "unicode \<Rightarrow> conn \<Rightarrow> conn \<Rightarrow> bool" where
  start: "conn_reach U c c"
| step: "conn_reach U c c' \<Longrightarrow> conn_step U c' c'' \<Longrightarrow> conn_reach U c c''"

fun conn_run :: "unicode \<Rightarrow> action list \<Rightarrow> conn \<Rightarrow> conn option" where
  "conn_run U [] c = Some c"
| "conn_run U (a # as) c = (case conn_exec U a c of None \<Rightarrow> None | Some c' \<Rightarrow> conn_run U as c')"

end
