(* ===== verification/Connection_Facts.thy ===== *)
theory Connection_Facts
  imports Connection
begin

text \<open>
  What holds in every state that a connection can reach, however the steps of its channels and
  of the requests interleave: the gates of every session, the targets that are dialled, which
  recorder the copy loops use, and when the shared references are cleared.
\<close>

section \<open>What a step may write\<close>

text \<open>The part of the state that no step changes.\<close>

definition fixed :: "session_state \<Rightarrow> (bool \<times> bool \<times> bool \<times> bool \<times> bool \<times> string list \<times> string \<times> public_key list) \<times> string \<times> int" where
  "fixed st = (policy_of st, ClientUser st, ConnectRetries st)"

definition refs :: "session_state \<Rightarrow> handle option \<times> handle option \<times> handle option" where
  "refs st = (TargetClient st, TargetSession st, Recorder st)"

definition request_frame :: "session_state \<Rightarrow> session_state \<Rightarrow> bool" where
  "request_frame st st' \<longleftrightarrow> fixed st' = fixed st \<and> SSOVerified st' = SSOVerified st \<and> refs st' = refs st"

lemmas frame_defs = request_frame_def fixed_def policy_of_def refs_def

lemma env_frame:
  assumes "handleEnvRequest U p (Some st) = Some (s', ok)"
  shows "\<exists>st'. s' = Some st' \<and> request_frame st st'"
  using assms
  by (auto simp: handleEnvRequest_def accessor_simps frame_defs
      split: parsed.splits if_splits sum.splits prod.splits)

lemma channel_request_frame:
  assumes "handleChannelRequest U req ch (Some st) = Some (ch', s', rs, sp, es)"
  shows "\<exists>st'. s' = Some st' \<and> request_frame st st'"
  using assms env_frame [of U "reqPayload req" st]
  by (auto simp: handleChannelRequest_def Let_def accessor_simps frame_defs
      split: if_splits option.splits parsed.splits prod.splits)

lemma global_request_frame:
  assumes "handleGlobalRequest U req (Some st) = Some (s', rs)"
  shows "\<exists>st'. s' = Some st' \<and> request_frame st st'"
  using assms env_frame [of U "reqPayload req" st]
  by (auto simp: handleGlobalRequest_def accessor_simps frame_defs split: if_splits)

section \<open>One channel at a time\<close>

text \<open>Every step either leaves the channels to themselves, opens one, or moves one.\<close>

lemma cn_simps [simp]:
  "cnState (on_channel i f c) = cnState c" "cnCounter (on_channel i f c) = cnCounter c"
  "cnIdentity (on_channel i f c) = cnIdentity c"
  "cnChannels (on_channel i f c) = (cnChannels c)[i := f (cnChannels c ! i)]"
  "set_state (Some st) c = c\<lparr>cnState := st\<rparr>" "set_state None c = c"
  by (simp_all add: on_channel_def set_state_def)

lemma on_channel_more [simp]:
  "on_channel i f (c\<lparr>cnState := st\<rparr>) = (on_channel i f c)\<lparr>cnState := st\<rparr>"
  "set_phase i p (c\<lparr>cnState := st\<rparr>) = (set_phase i p c)\<lparr>cnState := st\<rparr>"
  by (simp_all add: on_channel_def set_phase_def)

text \<open>A new channel leaves the state alone, or the channels.\<close>

lemma open_channel_cases [consumes 1, case_names old new]:
  assumes "request_exec U (OpenChannel ty accepted) c = Some c'"
  obtains st' where "c' = c\<lparr>cnState := st'\<rparr>" "request_frame (cnState c) st'"
    | "c' = c\<lparr>cnChannels := cnChannels c @ [open_channel]\<rparr>"
proof (cases "ty = ''session'' \<and> accepted \<noteq> None")
  case True
  with assms that(2) show ?thesis by auto
next
  case False
  obtain st' where agent: "handleAgentChannel accepted (Some (cnState c)) = Some st'" "request_frame (cnState c) st'"
    by (cases accepted) (auto simp: handleAgentChannel_def Let_def accessor_simps frame_defs)
  have same: "request_frame (cnState c) (cnState c)" "c = c\<lparr>cnState := cnState c\<rparr>" by (simp_all add: frame_defs)
  show ?thesis
  proof (cases "ty = ''auth-agent@openssh.com''")
    case True
    with assms agent(1) have "c' = c\<lparr>cnState := st'\<rparr>" by simp
    then show ?thesis using agent(2) by (rule that(1))
  next
    case other: False
    with False assms have "c' = c" by (auto split: option.splits if_splits)
    with same that(1) show ?thesis by blast
  qed
qed

text \<open>
  An invariant of a connection made of a part about the shared state and a part about each
  channel that a step of another channel keeps.
\<close>

lemma on_channel_all:
  assumes "\<forall>ch \<in> set (cnChannels c). P ch" "i < length (cnChannels c) \<Longrightarrow> P (f (cnChannels c ! i))"
  shows "\<forall>ch \<in> set (cnChannels (on_channel i f c)). P ch"
proof (cases "i < length (cnChannels c)")
  case True
  with assms show ?thesis by (auto dest: set_update_subset_insert [THEN subsetD])
next
  case False
  with assms(1) show ?thesis by (simp add: list_update_beyond)
qed

lemma phase_of_channel:
  assumes "phase_of i c = p" "p \<noteq> Ended"
  shows "i < length (cnChannels c)" and "cnChannels c ! i \<in> set (cnChannels c)" and "ccPhase (cnChannels c ! i) = p"
  using assms by (auto simp: phase_of_def split: if_splits)

section \<open>The gates\<close>

definition admitted_ok :: "session_state \<Rightarrow> spawned \<Rightarrow> bool" where
  "admitted_ok st w \<longleftrightarrow> (w \<noteq> SpawnShell \<longrightarrow> AllowDirectCommands st) \<and> (SSOEnabled st \<longrightarrow> SSOVerified st)"

definition allowed_target :: "unicode \<Rightarrow> session_state \<Rightarrow> string \<Rightarrow> bool" where
  "allowed_target U st t \<longleftrightarrow>
     (if StaticRoutingEnabled st then t \<in> set (StaticTargets st) else ValidateTargetAddress U t = None)"

definition dialled_ok :: "unicode \<Rightarrow> session_state \<Rightarrow> string \<Rightarrow> string \<Rightarrow> string \<Rightarrow> bool" where
  "dialled_ok U st u h p \<longleftrightarrow>
     (\<exists>t. allowed_target U st t \<and> resolveTargetAddress U t (ClientUser st) = Inr (u, h, p))"

fun phase_ok :: "unicode \<Rightarrow> session_state \<Rightarrow> phase \<Rightarrow> bool" where
  "phase_ok U st (Confirming w) = (w \<noteq> SpawnShell \<longrightarrow> AllowDirectCommands st)"
| "phase_ok U st (Admitted w) = admitted_ok st w"
| "phase_ok U st (Routed w ts) = (admitted_ok st w \<and> (\<forall>t \<in> set ts. allowed_target U st t))"
| "phase_ok U st (Dialling w ts u h p) =
     (admitted_ok st w \<and> (\<forall>t \<in> set ts. allowed_target U st t) \<and> dialled_ok U st u h p)"
| "phase_ok U st (Reached w client u h p) = (admitted_ok st w \<and> dialled_ok U st u h p)"
| "phase_ok U st (Dialled w client) = admitted_ok st w"
| "phase_ok U st (InSession w client session) = admitted_ok st w"
| "phase_ok U st (Attached w client session r) = admitted_ok st w"
| "phase_ok U st (Running w client session r) = admitted_ok st w"
| "phase_ok U st (Waiting w client session r) = admitted_ok st w"
| "phase_ok U st p = True"

lemma phase_ok_mono:
  assumes "phase_ok U st p" "fixed st' = fixed st" "SSOVerified st \<Longrightarrow> SSOVerified st'"
  shows "phase_ok U st' p"
  using assms
  by (cases p) (auto simp: fixed_def policy_of_def admitted_ok_def allowed_target_def dialled_ok_def)

text \<open>The second factor was passed by an identity that fits.\<close>

definition confirmed_by :: "unicode \<Rightarrow> session_state \<Rightarrow> identity option \<Rightarrow> bool" where
  "confirmed_by U st identity \<longleftrightarrow>
     (\<exists>i. identity = Some i \<and> (SSOEnforceUserMatch st \<longrightarrow> MatchesSSHUser U i (sso_client_user (Some st))))"

lemma confirmed_by_mono:
  "fixed st' = fixed st \<Longrightarrow> confirmed_by U st' identity = confirmed_by U st identity"
  by (auto simp: confirmed_by_def fixed_def policy_of_def sso_client_user_def ClientUserValue_def)

definition gates_ok :: "unicode \<Rightarrow> session_state \<Rightarrow> conn \<Rightarrow> bool" where
  "gates_ok U st0 c \<longleftrightarrow> fixed (cnState c) = fixed st0
     \<and> (SSOVerified (cnState c) \<longrightarrow> confirmed_by U st0 (cnIdentity c))
     \<and> (\<forall>ch \<in> set (cnChannels c). phase_ok U (cnState c) (ccPhase ch))"

lemma gates_ok_frame:
  assumes "gates_ok U st0 c" "fixed st' = fixed (cnState c)" "SSOVerified st' = SSOVerified (cnState c)"
  shows "gates_ok U st0 (c\<lparr>cnState := st'\<rparr>)"
  using assms phase_ok_mono [where st = "cnState c" and st' = st'] by (auto simp: gates_ok_def)

lemma gates_ok_channel:
  assumes "gates_ok U st0 c" "i < length (cnChannels c) \<Longrightarrow> phase_ok U (cnState c) (ccPhase (f (cnChannels c ! i)))"
  shows "gates_ok U st0 (on_channel i f c)"
  using assms on_channel_all [where P = "\<lambda>ch. phase_ok U (cnState c) (ccPhase ch)" and c = c and i = i and f = f]
  by (auto simp: gates_ok_def)

lemma gates_ok_counter [simp]: "gates_ok U st0 (c\<lparr>cnCounter := n\<rparr>) = gates_ok U st0 c"
  by (simp add: gates_ok_def)

lemma gates_ok_phase:
  "gates_ok U st0 c \<Longrightarrow> phase_of i c = p \<Longrightarrow> phase_ok U (cnState c) p"
  by (auto simp: gates_ok_def phase_of_def)

lemma candidates_allowed:
  assumes "resolveTargetCandidates U n (Some st) a cmd = (Returns (Inr ts), n')" "t \<in> set ts"
  shows "allowed_target U st t"
proof (cases "StaticRoutingEnabled st")
  case True
  with assms have "orderedStaticTargets U (StaticTargets st) (StaticRoutingMode st) n = (Some ts, n')"
    by (auto simp: resolveTargetCandidates_def split: if_splits prod.splits option.splits)
  from orderedStaticTargets_mset [OF this] assms(2) have "t \<in> set (StaticTargets st)"
    by (metis set_mset_mset)
  with True show ?thesis by (simp add: allowed_target_def)
next
  case False
  with assms show ?thesis
    by (auto simp: resolveTargetCandidates_def allowed_target_def Let_def split: if_splits option.splits)
qed

lemma connect_plan_set: "connect_plan s ts = Returns as \<Longrightarrow> set as \<subseteq> set ts"
  by (auto simp: connect_plan_def split: if_splits)

lemma routed_allowed:
  assumes "route_session U w n st = (Returns (Inr as), n')" "t \<in> set as"
  shows "allowed_target U st t"
proof -
  obtain ts where "resolveTargetCandidates U n (Some st) [] (command_of w) = (Returns (Inr ts), n')"
    "connect_plan (Some st) ts = Returns as"
    using assms(1) by (auto simp: route_session_def split: prod.splits outcome.splits sum.splits)
  with assms(2) connect_plan_set candidates_allowed show ?thesis by blast
qed

lemma gates_ok_request:
  assumes "request_exec U a c = Some c'" "gates_ok U st0 c"
  shows "gates_ok U st0 c'"
proof (cases a)
  case (OpenChannel ty h)
  with assms(1) have "request_exec U (OpenChannel ty h) c = Some c'" by simp
  then show ?thesis
  proof (cases rule: open_channel_cases)
    case (old st')
    with assms(2) show ?thesis by (auto simp: request_frame_def intro!: gates_ok_frame)
  next
    case new
    with assms(2) show ?thesis by (auto simp: gates_ok_def open_channel_def)
  qed
next
  case (GlobalRequest req)
  with assms(1) obtain s rs where req: "handleGlobalRequest U req (Some (cnState c)) = Some (s, rs)"
    and c': "c' = set_state s c" by auto
  from global_request_frame [OF req] obtain st' where "s = Some st'" "request_frame (cnState c) st'" by blast
  with c' assms(2) show ?thesis by (auto simp: request_frame_def intro!: gates_ok_frame)
next
  case (ChannelRequest i req)
  with assms(1) obtain ch s rs sp es
    where req: "handleChannelRequest U req (ccLocals (cnChannels c ! i)) (Some (cnState c)) = Some (ch, s, rs, sp, es)"
    and c': "c' = set_state s (on_channel i (\<lambda>cc. cc\<lparr>ccLocals := ch,
            ccPhase := (case sp of None \<Rightarrow> ccPhase cc | Some w \<Rightarrow> Starting w)\<rparr>) c)"
    by (auto split: if_splits)
  from channel_request_frame [OF req] obtain st' where st': "s = Some st'" "request_frame (cnState c) st'" by blast
  have "gates_ok U st0 (on_channel i (\<lambda>cc. cc\<lparr>ccLocals := ch,
            ccPhase := (case sp of None \<Rightarrow> ccPhase cc | Some w \<Rightarrow> Starting w)\<rparr>) c)"
    using assms(2) by (rule gates_ok_channel) (use assms(2) in \<open>auto simp: gates_ok_def split: option.split\<close>)
  with c' st' show ?thesis by (auto simp: request_frame_def intro!: gates_ok_frame)
qed (use assms in simp_all)

lemma check_phase_ok: "phase_ok U st (check_phase w st)"
  by (cases w) (auto simp: check_phase_def admitted_ok_def)

lemma gates_ok_move:
  assumes "gates_ok U st0 c" "fixed st' = fixed (cnState c)" "SSOVerified st' = SSOVerified (cnState c)"
    "phase_ok U (cnState c) p"
  shows "gates_ok U st0 ((set_phase i p c)\<lparr>cnState := st'\<rparr>)" and "gates_ok U st0 (set_phase i p c)"
  using assms by (auto simp: set_phase_def intro!: gates_ok_frame gates_ok_channel)

lemma gates_ok_confirmed:
  assumes "gates_ok U st0 c" "phase_of i c = Confirming w"
    "SSOEnforceUserMatch (cnState c) \<longrightarrow> MatchesSSHUser U identity (sso_client_user (Some (cnState c)))"
  shows "gates_ok U st0 (set_phase i (Admitted w)
     (c\<lparr>cnIdentity := Some identity, cnState := (cnState c)\<lparr>SSOVerified := True\<rparr>\<rparr>))"
proof -
  let ?st = "(cnState c)\<lparr>SSOVerified := True\<rparr>"
  have eq: "fixed ?st = fixed (cnState c)" by (simp add: fixed_def policy_of_def)
  have "confirmed_by U (cnState c) (Some identity)" using assms(3) by (simp add: confirmed_by_def)
  moreover have "fixed (cnState c) = fixed st0" using assms(1) by (simp add: gates_ok_def)
  ultimately have "confirmed_by U st0 (Some identity)" using confirmed_by_mono by blast
  then have "gates_ok U st0 (c\<lparr>cnIdentity := Some identity, cnState := ?st\<rparr>)"
    using assms(1) eq phase_ok_mono [where st = "cnState c" and st' = ?st] by (auto simp: gates_ok_def)
  moreover have "phase_ok U ?st (Admitted w)"
    using gates_ok_phase [OF assms(1,2)] by (simp add: admitted_ok_def)
  ultimately show ?thesis using gates_ok_move(2) [of U st0 "c\<lparr>cnIdentity := Some identity, cnState := ?st\<rparr>"] by simp
qed

lemma writers_frame:
  "fixed (st\<lparr>TargetUser := u, TargetHost := h, TargetPort := p\<rparr>) = fixed st"
  "fixed (st\<lparr>TargetClient := x\<rparr>) = fixed st" "fixed (st\<lparr>TargetSession := x\<rparr>) = fixed st"
  "fixed (st\<lparr>Recorder := x\<rparr>) = fixed st"
  by (simp_all add: fixed_def policy_of_def)

lemmas writer_simps = writers_frame SetTarget_def SetTargetClient_def SetTargetSession_def SetRecorder_def

lemma gates_ok_dial:
  assumes run: "dial_exec U a c = Some c'" and ok: "gates_ok U st0 c"
  shows "gates_ok U st0 c'"
proof (cases a)
  case (Check i)
  with run ok check_phase_ok show ?thesis by (auto split: phase.splits intro!: gates_ok_move(2))
next
  case (Confirmed i identity)
  with run obtain w where ph: "phase_of i c = Confirming w" by (auto split: phase.splits)
  show ?thesis
  proof (cases "SSOEnforceUserMatch (cnState c) \<and> \<not> MatchesSSHUser U identity (sso_client_user (Some (cnState c)))")
    case True
    with run Confirmed ph ok show ?thesis by (auto intro!: gates_ok_move(2))
  next
    case False
    with run Confirmed ph gates_ok_confirmed [OF ok ph, of identity] show ?thesis
      by (simp add: SetSSOVerified_def)
  qed
next
  case (ConfirmationFails i)
  with run ok show ?thesis by (auto split: phase.splits intro!: gates_ok_move(2))
next
  case (Route i)
  with run obtain w r n where ph: "phase_of i c = Admitted w"
    and r: "route_session U w (cnCounter c) (cnState c) = (Returns r, n)"
    and c': "c' = set_phase i (case r of Inl e \<Rightarrow> Ended | Inr ts \<Rightarrow> Routed w ts) (c\<lparr>cnCounter := n\<rparr>)"
    by (auto split: phase.splits prod.splits outcome.splits)
  have "phase_ok U (cnState c) (case r of Inl e \<Rightarrow> Ended | Inr ts \<Rightarrow> Routed w ts)"
    using gates_ok_phase [OF ok ph] r by (auto split: sum.split intro: routed_allowed)
  then show ?thesis unfolding c' by (intro gates_ok_move(2)) (use ok in simp_all)
next
  case (Dial i)
  with run obtain w t ts where ph: "phase_of i c = Routed w (t # ts)"
    by (auto split: phase.splits list.splits)
  note routed = gates_ok_phase [OF ok ph]
  show ?thesis
  proof (cases "resolveTargetAddress U t (ClientUser (cnState c))")
    case (Inl e)
    with run Dial ph ok routed show ?thesis by (auto intro!: gates_ok_move(2))
  next
    case (Inr uhp)
    obtain u h p where uhp: "uhp = (u, h, p)" by (cases uhp)
    with Inr routed have "dialled_ok U (cnState c) u h p" by (auto simp: dialled_ok_def)
    with uhp Inr run Dial ph routed show ?thesis
      by (auto simp: writer_simps intro!: gates_ok_move(1) ok)
  qed
next
  case (DialFails i)
  with run ok gates_ok_phase [OF ok, of i] show ?thesis
    by (auto split: phase.splits intro!: gates_ok_move(2))
next
  case (DialSucceeds i client)
  with run ok gates_ok_phase [OF ok, of i] show ?thesis
    by (auto simp: writer_simps split: phase.splits intro!: gates_ok_move(1))
next
  case (Publish i)
  with run ok gates_ok_phase [OF ok, of i] show ?thesis
    by (auto simp: writer_simps split: phase.splits intro!: gates_ok_move(1))
next
  case (GiveUp i)
  with run ok show ?thesis by (auto split: phase.splits list.splits intro!: gates_ok_move(2))
qed (use run in simp_all)

lemma gates_ok_target:
  assumes run: "target_exec a c = Some c'" and ok: "gates_ok U st0 c"
  shows "gates_ok U st0 c'"
proof (cases a)
  case (NewSession i session)
  with run ok gates_ok_phase [OF ok, of i] show ?thesis
    by (auto simp: writer_simps split: phase.splits intro!: gates_ok_move(1))
next
  case (Attach i r)
  with run ok gates_ok_phase [OF ok, of i] show ?thesis
    by (auto simp: writer_simps split: phase.splits intro!: gates_ok_frame gates_ok_channel)
next
  case (SpawnLoops i)
  with run ok gates_ok_phase [OF ok, of i] show ?thesis
    by (auto split: phase.splits intro!: gates_ok_channel)
next
  case (PickUp i l)
  with run ok gates_ok_phase [OF ok, of i] show ?thesis
    by (auto simp: phase_of_def split: if_splits intro!: gates_ok_channel)
next
  case (StartRemote i)
  with run ok gates_ok_phase [OF ok, of i] show ?thesis by (auto split: phase.splits intro!: gates_ok_move(2))
qed (use run ok gates_ok_phase [OF ok] in
    \<open>auto simp: writer_simps split: phase.splits if_splits intro!: gates_ok_move\<close>)

lemma gates_ok_step: "conn_step U c c' \<Longrightarrow> gates_ok U st0 c \<Longrightarrow> gates_ok U st0 c'"
  by (erule conn_stepE) (auto intro: gates_ok_request gates_ok_dial gates_ok_target)

lemma gates_ok_reach: "conn_reach U c c' \<Longrightarrow> gates_ok U st0 c \<Longrightarrow> gates_ok U st0 c'"
  by (induction rule: conn_reach.induct) (auto intro: gates_ok_step)

lemma gates_ok_start: "\<not> SSOVerified st \<Longrightarrow> gates_ok U st (start_conn st n)"
  by (simp add: gates_ok_def start_conn_def)

section \<open>Every session passed its gates\<close>

text \<open>The goroutine whose session has passed the gates and reaches out to a target.\<close>

fun acting :: "phase \<Rightarrow> spawned option" where
  "acting (Admitted w) = Some w" | "acting (Routed w ts) = Some w" | "acting (Dialling w ts u h p) = Some w"
| "acting (Reached w client u h p) = Some w" | "acting (Dialled w client) = Some w"
| "acting (InSession w client session) = Some w" | "acting (Attached w client session r) = Some w"
| "acting (Running w client session r) = Some w" | "acting (Waiting w client session r) = Some w" | "acting p = None"

lemma acting_ok: "phase_ok U st p \<Longrightarrow> acting p = Some w \<Longrightarrow> admitted_ok st w"
  by (cases p) auto

lemma connection_state_fields [simp]:
  "AllowDirectCommands (connection_state U user key h dir allow insecure fmt rc sc hostcas) = allow"
  "SSOEnabled (connection_state U user key h dir allow insecure fmt rc sc hostcas) = cfgEnabled sc"
  "SSOVerified (connection_state U user key h dir allow insecure fmt rc sc hostcas) = False"
  "SSOEnforceUserMatch (connection_state U user key h dir allow insecure fmt rc sc hostcas) = cfgEnforceUserMatch sc"
  "StaticRoutingEnabled (connection_state U user key h dir allow insecure fmt rc sc hostcas) = StaticEnabled rc"
  "StaticTargets (connection_state U user key h dir allow insecure fmt rc sc hostcas) = rStaticTargets rc"
  "ClientUser (connection_state U user key h dir allow insecure fmt rc sc hostcas) = user"
  by (simp_all add: connection_state_def zero_state_def)

text \<open>
  C2. However the channels, requests and agent openings of a connection interleave, a session
  goes on to route, dial or talk to a target only if its kind is permitted by the settings the
  connection was started with (a command needs direct commands) and, with the second factor on,
  only after some device flow of this connection has returned an identity, which is the SSH
  user's if matching is enforced.
\<close>

theorem connection_gates:
  assumes "conn_reach U (start_conn (connection_state U user key h dir allow insecure fmt rc sc hostcas) n) c"
    and "acting (phase_of i c) = Some w"
  shows "(case w of SpawnShell \<Rightarrow> True | SpawnExec command \<Rightarrow> allow)
    \<and> (cfgEnabled sc \<longrightarrow> (\<exists>identity. cnIdentity c = Some identity
         \<and> (cfgEnforceUserMatch sc \<longrightarrow> MatchesSSHUser U identity (if TrimSpace user \<noteq> [] then user else ''unknown''))))"
proof -
  let ?st0 = "connection_state U user key h dir allow insecure fmt rc sc hostcas"
  have ok: "gates_ok U ?st0 c" using gates_ok_reach [OF assms(1)] gates_ok_start by simp
  then have same: "fixed (cnState c) = fixed ?st0" by (simp add: gates_ok_def)
  have "admitted_ok (cnState c) w" using acting_ok [OF gates_ok_phase [OF ok refl] assms(2)] .
  with same have "(w \<noteq> SpawnShell \<longrightarrow> allow) \<and> (cfgEnabled sc \<longrightarrow> SSOVerified (cnState c))"
    by (simp add: admitted_ok_def fixed_def policy_of_def)
  with ok show ?thesis
    by (auto simp: gates_ok_def confirmed_by_def sso_client_user_def ClientUserValue_def split: spawned.split)
qed

text \<open>
  C3. The proxy dials only what the settings permit. In every reachable state, the address that a
  channel dials or has reached consists of a safe user, host and port and is the resolution, for
  the user of the SSH login, of one of the configured servers if static routing is on, and of an
  address that passes validation otherwise. Nothing a client sends opens another way.
\<close>

theorem dials_what_is_permitted:
  assumes "conn_reach U (start_conn (connection_state U user key h dir allow insecure fmt rc sc hostcas) n) c"
    and "phase_of i c = Dialling w ts u host p \<or> phase_of i c = Reached w client u host p"
  shows "isSafeTargetUser U u \<and> isSafeTargetHost U host \<and> isSafeTargetPort U p
    \<and> (\<exists>t. resolveTargetAddress U t user = Inr (u, host, p)
         \<and> (if StaticEnabled rc then t \<in> set (rStaticTargets rc) else ValidateTargetAddress U t = None))"
proof -
  let ?st0 = "connection_state U user key h dir allow insecure fmt rc sc hostcas"
  have ok: "gates_ok U ?st0 c" using gates_ok_reach [OF assms(1)] gates_ok_start by simp
  then have same: "fixed (cnState c) = fixed ?st0" by (simp add: gates_ok_def)
  have "dialled_ok U (cnState c) u host p" using gates_ok_phase [OF ok refl, of i] assms(2) by auto
  with same obtain t where "resolveTargetAddress U t user = Inr (u, host, p)"
    "if StaticEnabled rc then t \<in> set (rStaticTargets rc) else ValidateTargetAddress U t = None"
    by (auto simp: dialled_ok_def allowed_target_def fixed_def policy_of_def)
  with resolveTargetAddress_InrD(1,2,3) show ?thesis by blast
qed

section \<open>Who holds the shared references\<close>

text \<open>The phases in which a session has a target client, a target session, a recorder to give back.\<close>

fun holds_client :: "phase \<Rightarrow> bool" where
  "holds_client (Reached w client u h p) = True" | "holds_client (Dialled w client) = True"
| "holds_client (InSession w client session) = True" | "holds_client (Attached w client session r) = True"
| "holds_client (Running w client session r) = True" | "holds_client (Waiting w client session r) = True"
| "holds_client (Releasing n) = True" | "holds_client p = False"

fun holds_session :: "phase \<Rightarrow> bool" where
  "holds_session (InSession w client session) = True" | "holds_session (Attached w client session r) = True"
| "holds_session (Running w client session r) = True" | "holds_session (Waiting w client session r) = True"
| "holds_session (Releasing n) = (n = 2)" | "holds_session p = False"

fun holds_recorder :: "phase \<Rightarrow> bool" where
  "holds_recorder (Attached w client session r) = True" | "holds_recorder (Running w client session r) = True"
| "holds_recorder (Waiting w client session r) = True"
| "holds_recorder p = False"

fun unattached :: "phase \<Rightarrow> bool" where
  "unattached (Attached w client session r) = False" | "unattached (Running w client session r) = False"
| "unattached (Waiting w client session r) = False"
| "unattached (Releasing n) = False" | "unattached Ended = False" | "unattached p = True"

definition channel_ok :: "conn_channel \<Rightarrow> bool" where
  "channel_ok ch \<longleftrightarrow> (ccPhase ch = Idle \<longleftrightarrow> \<not> chStarted (ccLocals ch))
     \<and> (unattached (ccPhase ch) \<longrightarrow> ccOwn ch = None)"

definition owns :: "conn \<Rightarrow> handle set" where
  "owns c = {r. \<exists>ch \<in> set (cnChannels c). ccOwn ch = Some r}"

definition life_ok :: "conn \<Rightarrow> bool" where
  "life_ok c \<longleftrightarrow> (\<forall>ch \<in> set (cnChannels c). channel_ok ch)
     \<and> (TargetClient (cnState c) = None \<or> (\<exists>ch \<in> set (cnChannels c). holds_client (ccPhase ch)))
     \<and> (TargetSession (cnState c) = None \<or> (\<exists>ch \<in> set (cnChannels c). holds_session (ccPhase ch)))
     \<and> (Recorder (cnState c) = None \<or> (\<exists>ch \<in> set (cnChannels c). holds_recorder (ccPhase ch)))
     \<and> (\<forall>r. Recorder (cnState c) = Some r \<longrightarrow> r \<in> owns c)
     \<and> (\<forall>ch \<in> set (cnChannels c). \<forall>l r. (l, Some r) \<in> set (ccPicked ch) \<longrightarrow> r \<in> owns c)"

lemma on_channel_ex:
  assumes "\<exists>ch \<in> set (cnChannels c). P ch" "i < length (cnChannels c) \<Longrightarrow> P (cnChannels c ! i) \<Longrightarrow> P (f (cnChannels c ! i))"
  shows "\<exists>ch \<in> set (cnChannels (on_channel i f c)). P ch"
proof -
  obtain j where j: "j < length (cnChannels c)" "P (cnChannels c ! j)" using assms(1) by (metis in_set_conv_nth)
  then have "P (cnChannels (on_channel i f c) ! j)" using assms(2) by (cases "i = j") auto
  with j(1) show ?thesis by (metis cn_simps(4) length_list_update nth_mem)
qed

lemma on_channel_here: "i < length (cnChannels c) \<Longrightarrow> P (f (cnChannels c ! i)) \<Longrightarrow> \<exists>ch \<in> set (cnChannels (on_channel i f c)). P ch"
  by (auto intro!: set_update_memI bexI)

text \<open>One reference: a step clears it, sets it and holds it, or leaves it to whoever holds it.\<close>

lemma held_move:
  assumes "x = None \<or> (\<exists>ch \<in> set (cnChannels c). P (ccPhase ch))"
    and "x' = None \<or> P (ccPhase (f (cnChannels c ! i))) \<or> x' = x \<and> \<not> P (ccPhase (cnChannels c ! i))"
    and "i < length (cnChannels c)"
  shows "x' = None \<or> (\<exists>ch \<in> set (cnChannels (on_channel i f c)). P (ccPhase ch))"
  using assms(2)
proof (elim disjE)
  assume "P (ccPhase (f (cnChannels c ! i)))"
  with on_channel_here [OF assms(3), of "\<lambda>ch. P (ccPhase ch)"] show ?thesis by blast
next
  assume "x' = x \<and> \<not> P (ccPhase (cnChannels c ! i))"
  with assms(1) on_channel_ex [where P = "\<lambda>ch. P (ccPhase ch)" and c = c and i = i and f = f] show ?thesis by blast
qed simp

lemma owns_move:
  assumes "ccOwn (cnChannels c ! i) = None \<or> ccOwn (f (cnChannels c ! i)) = ccOwn (cnChannels c ! i)"
  shows "owns c \<subseteq> owns (on_channel i f c)"
proof
  fix r
  assume "r \<in> owns c"
  then have "\<exists>ch \<in> set (cnChannels c). ccOwn ch = Some r" by (simp add: owns_def)
  then have "\<exists>ch \<in> set (cnChannels (on_channel i f c)). ccOwn ch = Some r"
    by (rule on_channel_ex) (use assms in auto)
  then show "r \<in> owns (on_channel i f c)" by (simp only: owns_def mem_Collect_eq)
qed

lemma life_ok_move:
  fixes f c i st'
  defines "ch \<equiv> cnChannels c ! i" and "ch' \<equiv> f (cnChannels c ! i)" and "st \<equiv> cnState c"
  assumes ok: "life_ok c" and i: "i < length (cnChannels c)" and chan: "channel_ok ch'"
    and own: "ccOwn ch = None \<or> ccOwn ch' = ccOwn ch"
    and client: "TargetClient st' = None \<or> holds_client (ccPhase ch')
       \<or> TargetClient st' = TargetClient st \<and> \<not> holds_client (ccPhase ch)"
    and session: "TargetSession st' = None \<or> holds_session (ccPhase ch')
       \<or> TargetSession st' = TargetSession st \<and> \<not> holds_session (ccPhase ch)"
    and recorder: "Recorder st' = None \<or> holds_recorder (ccPhase ch')
       \<or> Recorder st' = Recorder st \<and> \<not> holds_recorder (ccPhase ch)"
    and owned: "Recorder st' = None \<or> Recorder st' = Recorder st \<or> Recorder st' = ccOwn ch'"
    and picked: "\<forall>x \<in> set (ccPicked ch'). x \<in> set (ccPicked ch) \<or> snd x = Recorder st"
  shows "life_ok ((on_channel i f c)\<lparr>cnState := st'\<rparr>)"
proof -
  let ?c = "on_channel i f c"
  have sub: "owns c \<subseteq> owns ?c" using own owns_move [of c i f] by (simp add: ch_def ch'_def)
  have here: "ch' \<in> set (cnChannels ?c)" using i by (simp add: ch'_def set_update_memI)
  have in_c: "ch \<in> set (cnChannels c)" using i by (simp add: ch_def)
  note parts = ok [unfolded life_ok_def]
  have chans: "\<forall>ch \<in> set (cnChannels ?c). channel_ok ch"
    using on_channel_all [where P = channel_ok and f = f and i = i and c = c] parts chan by (simp add: ch'_def)
  have recs: "r \<in> owns ?c" if "Recorder st' = Some r" for r
  proof -
    from that owned consider "Recorder st = Some r" | "ccOwn ch' = Some r" by force
    then show ?thesis
    proof cases
      case 1
      with parts have "r \<in> owns c" by (simp add: st_def)
      with sub show ?thesis by blast
    next
      case 2
      with here show ?thesis by (auto simp only: owns_def)
    qed
  qed
  have picks: "\<forall>ch \<in> set (cnChannels ?c). \<forall>l r. (l, Some r) \<in> set (ccPicked ch) \<longrightarrow> r \<in> owns ?c"
  proof (rule on_channel_all)
    show "\<forall>ch \<in> set (cnChannels c). \<forall>l r. (l, Some r) \<in> set (ccPicked ch) \<longrightarrow> r \<in> owns ?c"
      using parts sub by blast
    show "\<forall>l r. (l, Some r) \<in> set (ccPicked (f (cnChannels c ! i))) \<longrightarrow> r \<in> owns ?c"
      using picked parts sub in_c unfolding ch_def ch'_def st_def by fastforce
  qed
  have held: "TargetClient st = None \<or> (\<exists>ch \<in> set (cnChannels c). holds_client (ccPhase ch))"
    "TargetSession st = None \<or> (\<exists>ch \<in> set (cnChannels c). holds_session (ccPhase ch))"
    "Recorder st = None \<or> (\<exists>ch \<in> set (cnChannels c). holds_recorder (ccPhase ch))"
    using parts unfolding st_def by blast+
  have whole: "cnState (?c\<lparr>cnState := st'\<rparr>) = st'" "cnChannels (?c\<lparr>cnState := st'\<rparr>) = cnChannels ?c"
    "owns (?c\<lparr>cnState := st'\<rparr>) = owns ?c" by (simp_all add: owns_def)
  show ?thesis unfolding life_ok_def whole
    using chans recs picks held_move [where f = f, OF held(1) client [unfolded ch_def ch'_def] i]
      held_move [where f = f, OF held(2) session [unfolded ch_def ch'_def] i]
      held_move [where f = f, OF held(3) recorder [unfolded ch_def ch'_def] i]
    by (intro conjI allI impI)
qed

lemma life_ok_request:
  assumes run: "request_exec U a c = Some c'" and ok: "life_ok c"
  shows "life_ok c'"
proof (cases a)
  case (OpenChannel ty h)
  with run have "request_exec U (OpenChannel ty h) c = Some c'" by simp
  then show ?thesis
  proof (cases rule: open_channel_cases)
    case (old st')
    with ok show ?thesis by (auto simp: frame_defs life_ok_def owns_def)
  next
    case new
    have ch: "channel_ok open_channel" "ccPicked open_channel = []"
      by (simp_all add: open_channel_def channel_ok_def new_channel_def)
    have "owns c = owns c'" by (auto simp: new owns_def open_channel_def)
    moreover have "cnState c' = cnState c" "set (cnChannels c') = insert open_channel (set (cnChannels c))"
      by (simp_all add: new)
    ultimately show ?thesis using ok ch unfolding life_ok_def by simp blast
  qed
next
  case (GlobalRequest req)
  with run obtain s rs where req: "handleGlobalRequest U req (Some (cnState c)) = Some (s, rs)"
    and c': "c' = set_state s c" by auto
  from global_request_frame [OF req] obtain st' where "s = Some st'" "request_frame (cnState c) st'" by blast
  with c' ok show ?thesis by (auto simp: frame_defs life_ok_def owns_def)
next
  case (ChannelRequest i req)
  with run obtain ch s rs sp es where i: "i < length (cnChannels c)"
    and req: "handleChannelRequest U req (ccLocals (cnChannels c ! i)) (Some (cnState c)) = Some (ch, s, rs, sp, es)"
    and c': "c' = set_state s (on_channel i (\<lambda>cc. cc\<lparr>ccLocals := ch,
            ccPhase := (case sp of None \<Rightarrow> ccPhase cc | Some w \<Rightarrow> Starting w)\<rparr>) c)"
    by (auto split: if_splits)
  from channel_request_frame [OF req] obtain st' where st': "s = Some st'" "request_frame (cnState c) st'" by blast
  have chan: "channel_ok (cnChannels c ! i)" using ok i by (simp add: life_ok_def)
  note started = request_started [OF req]
  have p: "refs st' = refs (cnState c)" using st'(2) by (simp add: request_frame_def)
  have idle: "sp = None \<or> ccPhase (cnChannels c ! i) = Idle" using started chan by (auto simp: channel_ok_def)
  have "life_ok ((on_channel i (\<lambda>cc. cc\<lparr>ccLocals := ch,
            ccPhase := (case sp of None \<Rightarrow> ccPhase cc | Some w \<Rightarrow> Starting w)\<rparr>) c)\<lparr>cnState := st'\<rparr>)"
    by (rule life_ok_move [OF ok i])
      (use p idle chan started in \<open>auto simp: refs_def channel_ok_def split: option.splits\<close>)
  with c' st'(1) show ?thesis by simp
qed (use run in simp_all)

lemma life_ok_phase:
  assumes "life_ok c" "phase_of i c = p" "p \<noteq> Ended"
  shows "i < length (cnChannels c)" "ccPhase (cnChannels c ! i) = p" "channel_ok (cnChannels c ! i)"
  using assms phase_of_channel [OF assms(2,3)] by (auto simp: life_ok_def)

text \<open>A move to another phase, which gives back what it does not hold any more.\<close>

lemma life_ok_next:
  assumes ok: "life_ok c" and p: "phase_of i c = p" "p \<noteq> Ended" "p \<noteq> Idle" and p': "p' \<noteq> Idle" "unattached p' \<Longrightarrow> unattached p"
    and client: "TargetClient st' = None \<or> holds_client p' \<or> TargetClient st' = TargetClient (cnState c) \<and> \<not> holds_client p"
    and session: "TargetSession st' = None \<or> holds_session p' \<or> TargetSession st' = TargetSession (cnState c) \<and> \<not> holds_session p"
    and recorder: "Recorder st' = None \<or> holds_recorder p' \<and> Recorder st' = Recorder (cnState c)
       \<or> Recorder st' = Recorder (cnState c) \<and> \<not> holds_recorder p"
  shows "life_ok ((set_phase i p' c)\<lparr>cnState := st'\<rparr>)"
proof -
  note here = life_ok_phase [OF ok p(1,2)]
  have "channel_ok ((cnChannels c ! i)\<lparr>ccPhase := p'\<rparr>)"
    using here(2,3) p(3) p' by (auto simp: channel_ok_def)
  then show ?thesis unfolding set_phase_def
    by (intro life_ok_move [OF ok here(1)]) (use here(2) client session recorder in auto)
qed

lemma same_state: "c = c\<lparr>cnState := cnState c\<rparr>"
  by simp

lemma life_ok_next_same:
  assumes "life_ok c" "phase_of i c = p" "p \<noteq> Ended" "p \<noteq> Idle" "p' \<noteq> Idle" "unattached p' \<Longrightarrow> unattached p"
    and "holds_client p \<Longrightarrow> holds_client p'" "holds_session p \<Longrightarrow> holds_session p'" "holds_recorder p \<Longrightarrow> holds_recorder p'"
  shows "life_ok (set_phase i p' c)"
proof -
  have "life_ok ((set_phase i p' c)\<lparr>cnState := cnState c\<rparr>)"
    by (rule life_ok_next [OF assms(1-6)]) (use assms(7-9) in auto)
  then show ?thesis by (simp add: set_phase_def on_channel_def)
qed

lemma life_ok_ghosts [simp]:
  "life_ok (c\<lparr>cnCounter := n\<rparr>) = life_ok c" "life_ok (c\<lparr>cnIdentity := x\<rparr>) = life_ok c"
  "phase_of i (c\<lparr>cnCounter := n\<rparr>) = phase_of i c" "phase_of i (c\<lparr>cnIdentity := x\<rparr>) = phase_of i c"
  by (simp_all add: life_ok_def owns_def phase_of_def)

lemma life_ok_dial:
  assumes run: "dial_exec U a c = Some c'" and ok: "life_ok c"
  shows "life_ok c'"
proof (cases a)
  case (Check i)
  have "check_phase w st \<noteq> Idle" for w st by (auto simp: check_phase_def)
  moreover have "unattached (Starting w)" for w by simp
  ultimately show ?thesis using run Check ok
    by (auto split: phase.splits intro: life_ok_next_same)
next
  case (Confirmed i identity)
  with run obtain w where ph: "phase_of i c = Confirming w" by (auto split: phase.splits)
  have "life_ok ((set_phase i (Admitted w) (c\<lparr>cnIdentity := Some identity\<rparr>))\<lparr>cnState := (cnState c)\<lparr>SSOVerified := True\<rparr>\<rparr>)"
    by (rule life_ok_next [where p = "Confirming w"]) (use ok ph in simp_all)
  moreover have "life_ok (set_phase i Ended c)"
    by (rule life_ok_next_same [OF ok ph]) simp_all
  ultimately show ?thesis using run Confirmed ph by (auto simp: SetSSOVerified_def split: if_splits)
next
  case (Route i)
  with run ok show ?thesis
    by (auto split: phase.splits prod.splits sum.splits outcome.splits intro!: life_ok_next_same)
next
  case (Dial i)
  with run ok show ?thesis
    by (auto simp: writer_simps split: phase.splits list.splits sum.splits intro!: life_ok_next life_ok_next_same)
next
  case (DialSucceeds i client)
  with run ok show ?thesis by (auto simp: writer_simps split: phase.splits intro!: life_ok_next)
next
  case (Publish i)
  with run ok show ?thesis by (auto simp: writer_simps split: phase.splits intro!: life_ok_next)
qed (use run ok in \<open>auto split: phase.splits list.splits intro!: life_ok_next_same\<close>)

lemma life_ok_attach:
  assumes ok: "life_ok c" and ph: "phase_of i c = InSession w client session"
  shows "life_ok ((on_channel i (\<lambda>ch. ch\<lparr>ccPhase := Attached w client session r, ccOwn := Some r\<rparr>) c)
     \<lparr>cnState := (cnState c)\<lparr>Recorder := Some r\<rparr>\<rparr>)"
proof -
  have "phase_of i c \<noteq> Ended" using ph by simp
  note here = life_ok_phase [OF ok refl this]
  show ?thesis
    by (rule life_ok_move [OF ok here(1)]) (use here(2,3) ph in \<open>auto simp: channel_ok_def\<close>)
qed

lemma life_ok_loops:
  assumes ok: "life_ok c" and i: "i < length (cnChannels c)"
    and same: "ccLocals (f (cnChannels c ! i)) = ccLocals (cnChannels c ! i)"
      "ccOwn (f (cnChannels c ! i)) = ccOwn (cnChannels c ! i)"
    and phase: "ccPhase (f (cnChannels c ! i)) = ccPhase (cnChannels c ! i)
      \<or> ccPhase (cnChannels c ! i) = Attached w client session r \<and> ccPhase (f (cnChannels c ! i)) = Running w client session r"
    and picked: "\<forall>x \<in> set (ccPicked (f (cnChannels c ! i))). x \<in> set (ccPicked (cnChannels c ! i)) \<or> snd x = Recorder (cnState c)"
  shows "life_ok (on_channel i f c)"
proof -
  have chan: "channel_ok (cnChannels c ! i)" using ok i by (simp add: life_ok_def)
  have "life_ok ((on_channel i f c)\<lparr>cnState := cnState c\<rparr>)"
    by (rule life_ok_move [OF ok i]) (use chan same phase picked in \<open>auto simp: channel_ok_def\<close>)
  then show ?thesis by (simp add: on_channel_def)
qed

lemma life_ok_target:
  assumes run: "target_exec a c = Some c'" and ok: "life_ok c"
  shows "life_ok c'"
proof (cases a)
  case (NewSession i session)
  with run ok show ?thesis by (auto simp: writer_simps split: phase.splits intro!: life_ok_next)
next
  case (Attach i r)
  with run ok show ?thesis by (auto simp: writer_simps split: phase.splits intro!: life_ok_attach)
next
  case (SpawnLoops i)
  with run obtain w client session r where ph: "phase_of i c = Attached w client session r"
    and c': "c' = on_channel i (\<lambda>ch. ch\<lparr>ccPhase := Running w client session r,
            ccLoops := [InputLoop, StdoutLoop, StderrLoop]\<rparr>) c" by (auto split: phase.splits)
  have "phase_of i c \<noteq> Ended" using ph by simp
  note here = life_ok_phase [OF ok refl this]
  show ?thesis unfolding c' by (rule life_ok_loops [OF ok here(1)]) (use here(2) ph in auto)
next
  case (PickUp i l)
  with run have i: "i < length (cnChannels c)"
    and c': "c' = on_channel i (\<lambda>ch. ch\<lparr>ccLoops := remove1 l (ccLoops ch),
          ccPicked := ccPicked ch @ [(l, RecorderValue (Some (cnState c)))]\<rparr>) c" by (auto split: if_splits)
  show ?thesis unfolding c' by (rule life_ok_loops [OF ok i]) (auto simp: RecorderValue_def)
next
  case (Fail i)
  with run ok show ?thesis by (auto simp: writer_simps split: phase.splits intro!: life_ok_next_same life_ok_next)
next
  case (StartRemote i)
  with run ok show ?thesis by (auto split: phase.splits intro!: life_ok_next_same)
next
  case (WaitReturns i)
  with run ok show ?thesis by (auto simp: writer_simps split: phase.splits intro!: life_ok_next)
next
  case (Release i)
  with run ok show ?thesis by (auto simp: writer_simps split: phase.splits if_splits intro!: life_ok_next)
qed (use run in simp_all)

lemma life_ok_reach: "conn_reach U c c' \<Longrightarrow> life_ok c \<Longrightarrow> life_ok c'"
  by (induction rule: conn_reach.induct)
    (auto elim!: conn_stepE intro: life_ok_request life_ok_dial life_ok_target)

lemma life_ok_start: "refs st = (None, None, None) \<Longrightarrow> life_ok (start_conn st n)"
  by (simp add: life_ok_def start_conn_def owns_def refs_def)

lemma connection_state_refs [simp]:
  "refs (connection_state U user key h dir allow insecure fmt rc sc hostcas) = (None, None, None)"
  by (simp add: connection_state_def zero_state_def refs_def)

lemma rest_has_no_refs:
  assumes "life_ok c" "list_all (\<lambda>ch. ccPhase ch = Idle \<or> ccPhase ch = Ended) (cnChannels c)"
  shows "refs (cnState c) = (None, None, None)"
proof -
  have "\<not> holds_client (ccPhase ch) \<and> \<not> holds_session (ccPhase ch) \<and> \<not> holds_recorder (ccPhase ch)"
    if "ch \<in> set (cnChannels c)" for ch
    using assms(2) that by (fastforce simp: list_all_iff)
  with assms(1) show ?thesis unfolding life_ok_def refs_def by blast
qed

text \<open>
  When a connection has come to rest it has let go of everything: in every reachable state in
  which no session is between its start and its end, the shared state refers to no target client,
  no target session and no recorder. While a reference is there, some session still has to give
  it back.
\<close>

lemma nothing_left_behind:
  assumes "conn_reach U (start_conn (connection_state U user key h dir allow insecure fmt rc sc hostcas) n) c"
    and "list_all (\<lambda>ch. ccPhase ch = Idle \<or> ccPhase ch = Ended) (cnChannels c)"
  shows "TargetClientValue (Some (cnState c)) = None \<and> TargetSessionValue (Some (cnState c)) = None
    \<and> RecorderValue (Some (cnState c)) = None"
proof -
  have "life_ok c" using life_ok_reach [OF assms(1)] life_ok_start by simp
  from rest_has_no_refs [OF this assms(2)] show ?thesis
    by (simp add: refs_def TargetClientValue_def TargetSessionValue_def RecorderValue_def)
qed

text \<open>
  C6. A recording never leaves its connection, and on a connection with one session it is the
  right one: every copy loop writes either to no recorder or to one that a session of the same
  connection made, and if there is only one channel, to its own.
\<close>

theorem recorder_of_connection:
  assumes "conn_reach U (start_conn (connection_state U user key h dir allow insecure fmt rc sc hostcas) n) c"
    and "i < length (cnChannels c)" "(l, Some r) \<in> set (ccPicked (cnChannels c ! i))"
  shows "(\<exists>j < length (cnChannels c). ccOwn (cnChannels c ! j) = Some r)
    \<and> (length (cnChannels c) = 1 \<longrightarrow> ccOwn (cnChannels c ! i) = Some r)"
proof -
  have "life_ok c" using life_ok_reach [OF assms(1)] life_ok_start by simp
  with assms(3) have "r \<in> owns c" using nth_mem [OF assms(2)] unfolding life_ok_def by blast
  then obtain j where "j < length (cnChannels c)" "ccOwn (cnChannels c ! j) = Some r"
    by (auto simp: owns_def in_set_conv_nth)
  with assms(2) show ?thesis by auto
qed

end
