(* ===== verification/Connection_Runs.thy ===== *)
theory Connection_Runs
  imports Connection_Facts
begin

text \<open>
  Runs of a connection: how steps compose, that every session takes boundedly many steps to its
  end, and concrete runs, among them one in which two sessions of one connection get in each
  other's way.
\<close>

section \<open>Runs and reachable states\<close>

lemma conn_exec_step: "conn_exec U a c = Some c' \<Longrightarrow> conn_step U c c'"
  by (auto simp: conn_exec_def split: option.splits intro: conn_step.intros)

lemma conn_reach_trans: "conn_reach U c1 c2 \<Longrightarrow> conn_reach U c c1 \<Longrightarrow> conn_reach U c c2"
  by (induction rule: conn_reach.induct) (auto intro: conn_reach.step)

lemma conn_run_reach: "conn_run U as c = Some c' \<Longrightarrow> conn_reach U c c'"
proof (induction as arbitrary: c)
  case (Cons a as)
  then obtain c1 where "conn_exec U a c = Some c1" "conn_reach U c1 c'" by (auto split: option.splits)
  then show ?case by (meson conn_exec_step conn_reach.start conn_reach.step conn_reach_trans)
qed (simp add: conn_reach.start)

lemma conn_run_append:
  "conn_run U (as @ bs) c = (case conn_run U as c of None \<Rightarrow> None | Some c' \<Rightarrow> conn_run U bs c')"
  by (induction as arbitrary: c) (auto split: option.splits)

section \<open>One channel at a time\<close>

lemma phase_simps [simp]:
  "phase_of i (set_phase i p c) = (if i < length (cnChannels c) then p else Ended)"
  "j \<noteq> i \<Longrightarrow> phase_of j (set_phase i p c) = phase_of j c"
  "phase_of i (c\<lparr>cnState := st\<rparr>) = phase_of i c"
  "length (cnChannels (set_phase i p c)) = length (cnChannels c)"
  "cnState (set_phase i p c) = cnState c" "cnCounter (set_phase i p c) = cnCounter c"
  by (auto simp: phase_of_def set_phase_def)

lemma phase_bound: "phase_of i c = p \<Longrightarrow> p \<noteq> Ended \<Longrightarrow> i < length (cnChannels c)"
  by (auto simp: phase_of_def split: if_splits)

text \<open>A step that leaves all channels but one as they are.\<close>

definition only_channel :: "nat \<Rightarrow> conn \<Rightarrow> conn \<Rightarrow> bool" where
  "only_channel i c c' \<longleftrightarrow> length (cnChannels c') = length (cnChannels c)
     \<and> (\<forall>j. j \<noteq> i \<longrightarrow> j < length (cnChannels c) \<longrightarrow> cnChannels c' ! j = cnChannels c ! j)"

lemma only_channel_refl [simp]: "only_channel i c c"
  by (simp add: only_channel_def)

lemma only_channel_trans: "only_channel i c c' \<Longrightarrow> only_channel i c' c'' \<Longrightarrow> only_channel i c c''"
  by (simp add: only_channel_def)

lemma only_channel_moves [simp]:
  "only_channel i c (on_channel i f c)" "only_channel i c (set_phase i p c)"
  "only_channel i c (c'\<lparr>cnState := st\<rparr>) = only_channel i c c'"
  "only_channel i c (set_phase i p (c\<lparr>cnCounter := n\<rparr>))" "only_channel i c (set_phase i p (c\<lparr>cnIdentity := x\<rparr>))"
  by (simp_all add: only_channel_def set_phase_def on_channel_def)

lemma only_channel_phase: "only_channel i c c' \<Longrightarrow> j \<noteq> i \<Longrightarrow> phase_of j c' = phase_of j c"
  by (simp add: only_channel_def phase_of_def)

lemma session_action_local:
  assumes "conn_exec U a c = Some c'" "session_action i a"
  shows "only_channel i c c'"
  using assms
  by (cases a) (auto simp: conn_exec_def writer_simps SetSSOVerified_def
      split: phase.splits list.splits sum.splits prod.splits outcome.splits if_splits)

section \<open>Every session ends\<close>

text \<open>
  How many steps a session can still take, if there are at most \<open>A\<close> attempts to connect.
\<close>

fun steps_left :: "nat \<Rightarrow> phase \<Rightarrow> nat" where
  "steps_left A Idle = 12 + 2 * A" | "steps_left A (Starting w) = 12 + 2 * A"
| "steps_left A (Confirming w) = 11 + 2 * A" | "steps_left A (Admitted w) = 10 + 2 * A"
| "steps_left A (Routed w ts) = 9 + 2 * length ts" | "steps_left A (Dialling w ts u h p) = 10 + 2 * length ts"
| "steps_left A (Reached w client u h p) = 8" | "steps_left A (Dialled w client) = 7"
| "steps_left A (InSession w client session) = 6" | "steps_left A (Attached w client session r) = 5"
| "steps_left A (Running w client session r) = 4" | "steps_left A (Waiting w client session r) = 3"
| "steps_left A (Releasing n) = (if n = 2 then 2 else 1)" | "steps_left A Ended = 0"

text \<open>A channel that is not open yet has a whole session before it.\<close>

definition channel_steps :: "nat \<Rightarrow> nat \<Rightarrow> conn \<Rightarrow> nat" where
  "channel_steps A i c = (if i < length (cnChannels c) then steps_left A (phase_of i c) else 12 + 2 * A)"

definition max_attempts :: "session_state \<Rightarrow> nat" where
  "max_attempts st = (1 + nat (ConnectRetries st)) * max 1 (length (StaticTargets st))"

lemma candidates_length:
  assumes "resolveTargetCandidates U n (Some st) a cmd = (Returns (Inr ts), n')"
  shows "length ts \<le> max 1 (length (StaticTargets st))"
proof (cases "StaticRoutingEnabled st")
  case True
  with assms have "orderedStaticTargets U (StaticTargets st) (StaticRoutingMode st) n = (Some ts, n')"
    by (auto simp: resolveTargetCandidates_def split: if_splits prod.splits option.splits)
  from orderedStaticTargets_mset [OF this] have "length ts = length (StaticTargets st)"
    by (metis size_mset)
  then show ?thesis by simp
next
  case False
  with assms show ?thesis
    by (auto simp: resolveTargetCandidates_def Let_def split: if_splits option.splits)
qed

lemma plan_length:
  assumes "connect_plan (Some st) ts = Returns attempts"
  shows "length attempts \<le> (1 + nat (ConnectRetries st)) * length ts"
proof -
  have "nat (connect_rounds (Some st)) \<le> 1 + nat (ConnectRetries st)"
    using connect_rounds_le [of "Some st"] by (simp add: retries_of_def)
  then have "nat (connect_rounds (Some st)) * length ts \<le> (1 + nat (ConnectRetries st)) * length ts"
    by (intro mult_le_mono) simp_all
  with assms show ?thesis
    by (auto simp: connect_plan_def length_concat map_replicate_const sum_list_replicate split: if_splits)
qed

lemma route_length:
  assumes "route_session U w n st = (Returns (Inr attempts), n')"
  shows "length attempts \<le> max_attempts st"
proof -
  obtain ts where ts: "resolveTargetCandidates U n (Some st) [] (command_of w) = (Returns (Inr ts), n')"
    "connect_plan (Some st) ts = Returns attempts"
    using assms by (auto simp: route_session_def split: prod.splits outcome.splits sum.splits)
  have "(1 + nat (ConnectRetries st)) * length ts \<le> max_attempts st"
    unfolding max_attempts_def using candidates_length [OF ts(1)] by (intro mult_le_mono) simp_all
  with plan_length [OF ts(2)] show ?thesis by linarith
qed

lemma session_action_descends:
  assumes run: "conn_exec U a c = Some c'" "session_action i a"
  shows "channel_steps (max_attempts (cnState c)) i c' < channel_steps (max_attempts (cnState c)) i c"
proof -
  have i: "i < length (cnChannels c)"
    using assms by (cases a) (auto simp: conn_exec_def dest: phase_bound split: phase.splits)
  have moved: "phase_of i (on_channel i f c) = ccPhase (f (cnChannels c ! i))" for f
    using i by (simp add: phase_of_def)
  note simps = conn_exec_def writer_simps SetSSOVerified_def channel_steps_def moved
  show ?thesis
  proof (cases a)
    case (Route j)
    with assms i route_length [of U _ "cnCounter c" "cnState c"] show ?thesis
      by (force simp: simps split: phase.splits prod.splits outcome.splits sum.splits)
  next
    case (Check j)
    with assms i show ?thesis by (auto simp: simps check_phase_def split: phase.splits if_splits)
  qed (use assms i in \<open>auto simp: simps split: phase.splits list.splits sum.splits prod.splits if_splits\<close>)
qed

lemma other_action_keeps:
  assumes run: "conn_exec U a c = Some c'" and other: "\<not> session_action i a" and ok: "life_ok c"
  shows "channel_steps A i c' \<le> channel_steps A i c"
proof (cases "\<exists>j. session_action j a")
  case True
  then obtain j where j: "session_action j a" by blast
  with other have "i \<noteq> j" by auto
  note local = session_action_local [OF run j]
  from only_channel_phase [OF local \<open>i \<noteq> j\<close>] local show ?thesis
    by (simp add: channel_steps_def only_channel_def)
next
  case False
  then have kind: "(\<exists>ty h. a = OpenChannel ty h) \<or> (\<exists>req. a = GlobalRequest req) \<or> (\<exists>j req. a = ChannelRequest j req)
      \<or> (\<exists>j l. a = PickUp j l)" by (cases a) auto
  then consider ty h where "request_exec U (OpenChannel ty h) c = Some c'"
    | req where "a = GlobalRequest req" | j req where "a = ChannelRequest j req" | j l where "a = PickUp j l"
    using run by (auto simp: conn_exec_def split: option.splits)
  then show ?thesis
  proof cases
    case 1
    then show ?thesis
      by (cases rule: open_channel_cases)
        (auto simp: channel_steps_def phase_of_def nth_append open_channel_def)
  next
    case 2
    with run show ?thesis
      by (auto simp: conn_exec_def channel_steps_def phase_of_def set_state_def split: option.splits)
  next
    case (3 j req)
    with run obtain ch s rs sp es where j: "j < length (cnChannels c)"
      and req: "handleChannelRequest U req (ccLocals (cnChannels c ! j)) (Some (cnState c)) = Some (ch, s, rs, sp, es)"
      and c': "c' = set_state s (on_channel j (\<lambda>cc. cc\<lparr>ccLocals := ch,
            ccPhase := (case sp of None \<Rightarrow> ccPhase cc | Some w \<Rightarrow> Starting w)\<rparr>) c)"
      by (auto simp: conn_exec_def split: if_splits option.splits)
    have "channel_ok (cnChannels c ! j)" using ok j by (simp add: life_ok_def)
    with request_started(2) [OF req] have "sp = None \<or> phase_of j c = Idle"
      using j by (auto simp: channel_ok_def phase_of_def)
    then show ?thesis using j unfolding c'
      by (cases "i = j") (auto simp: channel_steps_def phase_of_def set_state_def split: option.splits)
  next
    case (4 j l)
    with run show ?thesis
      by (cases "i = j") (auto simp: conn_exec_def channel_steps_def phase_of_def split: if_splits)
  qed
qed

lemma gates_fixed: "conn_exec U a c = Some c' \<Longrightarrow> gates_ok U st0 c \<Longrightarrow> gates_ok U st0 c'"
  using gates_ok_step conn_exec_step by blast

lemma fixed_attempts: "fixed st = fixed st' \<Longrightarrow> max_attempts st = max_attempts st'"
  by (simp add: fixed_def policy_of_def max_attempts_def)

lemma life_ok_step: "conn_step U c c' \<Longrightarrow> life_ok c \<Longrightarrow> life_ok c'"
  using conn_reach.step [OF conn_reach.start] life_ok_reach by blast

lemma run_steps:
  assumes "conn_run U as c = Some c'" "gates_ok U st0 c" "life_ok c"
  shows "length (filter (session_action i) as) + channel_steps (max_attempts st0) i c' \<le> channel_steps (max_attempts st0) i c"
  using assms
proof (induction as arbitrary: c)
  case (Cons a as)
  then obtain c1 where c1: "conn_exec U a c = Some c1" "conn_run U as c1 = Some c'" by (auto split: option.splits)
  have A: "max_attempts (cnState c) = max_attempts st0"
    using Cons.prems(2) fixed_attempts unfolding gates_ok_def by blast
  have "length (filter (session_action i) as) + channel_steps (max_attempts st0) i c' \<le> channel_steps (max_attempts st0) i c1"
    using Cons.IH [OF c1(2)] gates_fixed [OF c1(1) Cons.prems(2)] life_ok_step [OF conn_exec_step [OF c1(1)] Cons.prems(3)] by blast
  moreover have "(if session_action i a then 1 else 0) + channel_steps (max_attempts st0) i c1 \<le> channel_steps (max_attempts st0) i c"
    using session_action_descends [OF c1(1), of i] other_action_keeps [OF c1(1) _ Cons.prems(3), of i] unfolding A by auto
  ultimately show ?case by auto
qed simp

text \<open>A session that is neither idle nor over can go on, unless choosing its route panics.\<close>

lemma session_progress:
  assumes "phase_of i c \<noteq> Idle" "phase_of i c \<noteq> Ended"
  shows "(\<exists>a. session_action i a \<and> conn_exec U a c \<noteq> None)
    \<or> (\<exists>w p n. phase_of i c = Admitted w \<and> route_session U w (cnCounter c) (cnState c) = (Panics p, n))"
proof (cases "phase_of i c")
  case (Starting w)
  then show ?thesis by (intro disjI1 exI [of _ "Check i"]) (simp add: conn_exec_def)
next
  case (Confirming w)
  then show ?thesis by (intro disjI1 exI [of _ "ConfirmationFails i"]) (simp add: conn_exec_def)
next
  case (Admitted w)
  obtain r n where "route_session U w (cnCounter c) (cnState c) = (r, n)" by fastforce
  with Admitted show ?thesis
    by (cases r) (force simp: conn_exec_def intro: exI [of _ "Route i"])+
next
  case (Routed w ts)
  then show ?thesis
    by (intro disjI1 exI [of _ "case ts of [] \<Rightarrow> GiveUp i | _ \<Rightarrow> Dial i"]) (auto simp: conn_exec_def split: list.split)
next
  case (Dialling w ts u h p)
  then show ?thesis by (intro disjI1 exI [of _ "DialFails i"]) (simp add: conn_exec_def)
next
  case (Reached w client u h p)
  then show ?thesis by (intro disjI1 exI [of _ "Publish i"]) (simp add: conn_exec_def)
next
  case (Running w client session r)
  then show ?thesis by (intro disjI1 exI [of _ "StartRemote i"]) (simp add: conn_exec_def)
next
  case (Waiting w client session r)
  then show ?thesis by (intro disjI1 exI [of _ "WaitReturns i"]) (simp add: conn_exec_def)
next
  case (Releasing n)
  then show ?thesis by (intro disjI1 exI [of _ "Release i"]) (simp add: conn_exec_def)
qed (use assms in \<open>auto simp: conn_exec_def intro!: exI [of _ "Fail i"]\<close>)


section \<open>Concrete runs\<close>

text \<open>A connection of alice with two static targets and the second factor as given.\<close>

definition sample_routing :: routing_config where
  "sample_routing = \<lparr>StaticEnabled = True, rStaticTargets = [''web'', ''db:2200''], rMode = ''failover'',
     rConnectTimeout = 0, rRetries = 0\<rparr>"

definition sample_sso :: "bool \<Rightarrow> sso_config" where
  "sample_sso enabled = \<lparr>cfgEnabled = enabled, cfgProvider = [], cfgBaseURL = [], cfgRealm = [], cfgClientID = [],
     cfgClientSecret = [], cfgScope = [], cfgAuthTimeout = 0, cfgPollInterval = 0, cfgRequestTimeout = 0,
     cfgEnforceUserMatch = True, cfgInsecureSkipVerify = False\<rparr>"

definition sample_conn :: "bool \<Rightarrow> conn" where
  "sample_conn sso = start_conn (connection_state ascii_tables ''alice'' None 3 ''rec'' True False [] sample_routing
     (sample_sso sso) []) 0"

definition plain_request :: "string \<Rightarrow> bytes \<Rightarrow> request" where
  "plain_request name payload = \<lparr>reqType = name, reqWantReply = True, reqPayload = payload\<rparr>"

text \<open>
  From the shell request to the attached recorder, with the handles the session gets; the dials of
  the first \<open>k\<close> targets fail.
\<close>

definition session_upto_recorder :: "nat \<Rightarrow> nat \<Rightarrow> handle \<Rightarrow> action list" where
  "session_upto_recorder i k h = [OpenChannel ''session'' (Some 0), ChannelRequest i (plain_request ''shell'' []), Check i, Route i]
     @ concat (replicate k [Dial i, DialFails i])
     @ [Dial i, DialSucceeds i h, Publish i, NewSession i (h + 1), Attach i (h + 2), SpawnLoops i]"

definition verified_run :: "action list" where
  "verified_run = [OpenChannel ''session'' (Some 0), ChannelRequest 0 (plain_request ''exec'' (encode_string ''ls'')), Check 0,
     Confirmed 0 \<lparr>Subject = [], PreferredUsername = ''alice'', Email = []\<rparr>, Route 0,
     Dial 0, DialFails 0, Dial 0]"

definition verified_conn :: conn where
  "verified_conn = the (conn_run ascii_tables verified_run (sample_conn True))"

lemma verified_conn_reach: "conn_reach ascii_tables (sample_conn True) verified_conn"
proof -
  have "conn_run ascii_tables verified_run (sample_conn True) \<noteq> None" by code_simp
  then have "conn_run ascii_tables verified_run (sample_conn True) = Some verified_conn"
    by (auto simp: verified_conn_def)
  then show ?thesis by (rule conn_run_reach)
qed

lemma verified_conn_phase:
  "phase_of 0 verified_conn = Dialling (SpawnExec ''ls'') [] ''alice'' ''db'' ''2200''"
  by code_simp

text \<open>
  Two sessions of one connection, the second attached while the copy loops of the first have
  not all started: the first loop of session 0 finds the recorder of session 1, a later one
  finds none, because session 1 has ended.
\<close>

definition crossing_run :: "action list" where
  "crossing_run = session_upto_recorder 0 0 10 @ session_upto_recorder 1 1 20
     @ [PickUp 0 StdoutLoop, StartRemote 1, WaitReturns 1, PickUp 0 StderrLoop]"

definition crossed_conn :: conn where
  "crossed_conn = the (conn_run ascii_tables crossing_run (sample_conn False))"

text \<open>
  Two sessions of one connection can get in each other's way, because the recorder, the
  target session and the target are fields of the connection's shared state. Here session 0 is
  running with its own recorder 12, but its standard output is copied into recorder 22 of
  session 1, its standard error is not recorded at all, a window change of its client goes to
  the target session of session 1, and the shared target is the one of session 1.
\<close>

lemma sessions_can_cross:
  "conn_run ascii_tables crossing_run (sample_conn False) = Some crossed_conn
   \<and> phase_of 0 crossed_conn = Running SpawnShell 10 11 12
   \<and> ccOwn (cnChannels crossed_conn ! 0) = Some 12
   \<and> ccPicked (cnChannels crossed_conn ! 0) = [(StdoutLoop, Some 22), (StderrLoop, None)]
   \<and> Target_of (Some (cnState crossed_conn)) = (''alice'', ''db'', ''2200'')
   \<and> (\<exists>ch s. handleChannelRequest ascii_tables (plain_request ''window-change'' (replicate 16 (CHR 0x01)))
        (ccLocals (cnChannels crossed_conn ! 0)) (Some (cnState crossed_conn))
        = Some (ch, s, [True], None, [WindowForwarded 21 16843009 16843009]))"
proof (intro conjI)
  show "conn_run ascii_tables crossing_run (sample_conn False) = Some crossed_conn"
  proof -
    have "conn_run ascii_tables crossing_run (sample_conn False) \<noteq> None" by code_simp
    then show ?thesis by (auto simp: crossed_conn_def)
  qed
  have "map_option (\<lambda>(ch, s, r). r) (handleChannelRequest ascii_tables (plain_request ''window-change'' (replicate 16 (CHR 0x01)))
        (ccLocals (cnChannels crossed_conn ! 0)) (Some (cnState crossed_conn)))
      = Some ([True], None, [WindowForwarded 21 16843009 16843009])" by code_simp
  then show "\<exists>ch s. handleChannelRequest ascii_tables (plain_request ''window-change'' (replicate 16 (CHR 0x01)))
        (ccLocals (cnChannels crossed_conn ! 0)) (Some (cnState crossed_conn))
        = Some (ch, s, [True], None, [WindowForwarded 21 16843009 16843009])" by auto
qed code_simp+

lemma crossed_conn_reach: "conn_reach ascii_tables (sample_conn False) crossed_conn"
proof -
  have "conn_run ascii_tables crossing_run (sample_conn False) \<noteq> None" by code_simp
  then have "conn_run ascii_tables crossing_run (sample_conn False) = Some crossed_conn"
    by (auto simp: crossed_conn_def)
  then show ?thesis by (rule conn_run_reach)
qed

section \<open>Witnesses\<close>

lemma connection_gates_witness:
  "\<exists>identity. cnIdentity verified_conn = Some identity \<and> MatchesSSHUser ascii_tables identity ''alice''"
proof -
  have "acting (phase_of 0 verified_conn) = Some (SpawnExec ''ls'')" by (simp add: verified_conn_phase)
  note gates = connection_gates [OF verified_conn_reach [unfolded sample_conn_def] this]
  have "TrimSpace ''alice'' \<noteq> []" by code_simp
  with gates show ?thesis by (auto simp: sample_sso_def)
qed

lemma dials_what_is_permitted_witness:
  "isSafeTargetHost ascii_tables ''db''
   \<and> (\<exists>t \<in> {''web'', ''db:2200''}. resolveTargetAddress ascii_tables t ''alice'' = Inr (''alice'', ''db'', ''2200''))"
  using dials_what_is_permitted [OF verified_conn_reach [unfolded sample_conn_def] disjI1 [OF verified_conn_phase]]
  by (auto simp: sample_routing_def)

lemma recorder_of_connection_witness:
  "\<exists>j < length (cnChannels crossed_conn). ccOwn (cnChannels crossed_conn ! j) = Some 22"
proof -
  have "0 < length (cnChannels crossed_conn)" "(StdoutLoop, Some 22) \<in> set (ccPicked (cnChannels crossed_conn ! 0))"
    by code_simp+
  from recorder_of_connection [OF crossed_conn_reach [unfolded sample_conn_def] this] show ?thesis by blast
qed

definition ended_conn :: conn where
  "ended_conn = the (conn_run ascii_tables [Release 1, Release 1, Fail 0, Release 0, Release 0] crossed_conn)"

lemma nothing_left_behind_witness: "TargetSessionValue (Some (cnState ended_conn)) = None"
proof -
  have "conn_run ascii_tables [Release 1, Release 1, Fail 0, Release 0, Release 0] crossed_conn \<noteq> None" by code_simp
  then have "conn_run ascii_tables [Release 1, Release 1, Fail 0, Release 0, Release 0] crossed_conn = Some ended_conn"
    by (auto simp: ended_conn_def)
  then have "conn_reach ascii_tables (sample_conn False) ended_conn"
    using conn_run_reach crossed_conn_reach conn_reach_trans by blast
  moreover have "list_all (\<lambda>ch. ccPhase ch = Idle \<or> ccPhase ch = Ended) (cnChannels ended_conn)" by code_simp
  ultimately show ?thesis using nothing_left_behind unfolding sample_conn_def by blast
qed


end
