(* ===== verification/Connection_Refinement.thy ===== *)
theory Connection_Refinement
  imports Connection_Runs
begin

text \<open>
  The sequential handlers of theory \<open>Session\<close> are runs of the transition system of theory
  \<open>Connection\<close>: undisturbed by other channels, a session goes through its phases and leaves the
  shared state and the route counter exactly as the handler does.
\<close>

section \<open>From one phase to another\<close>

type_synonym moment = "phase \<times> session_state \<times> u64"

definition at_moment :: "nat \<Rightarrow> moment \<Rightarrow> conn \<Rightarrow> bool" where
  "at_moment i m c \<longleftrightarrow> i < length (cnChannels c) \<and> (phase_of i c, cnState c, cnCounter c) = m"

text \<open>A run of steps of one session, which leaves the other channels alone.\<close>

definition session_run :: "unicode \<Rightarrow> nat \<Rightarrow> action list \<Rightarrow> conn \<Rightarrow> conn \<Rightarrow> bool" where
  "session_run U i as c c' \<longleftrightarrow> conn_run U as c = Some c' \<and> list_all (session_action i) as \<and> only_channel i c c'"

lemma session_run_Nil [simp]: "session_run U i [] c c"
  by (simp add: session_run_def)

lemma session_run_append:
  "session_run U i as c c' \<Longrightarrow> session_run U i bs c' c'' \<Longrightarrow> session_run U i (as @ bs) c c''"
  by (auto simp: session_run_def conn_run_append intro: only_channel_trans)

lemma session_run_single:
  "conn_exec U a c = Some c' \<Longrightarrow> session_action i a \<Longrightarrow> session_run U i [a] c c'"
  using session_action_local by (simp add: session_run_def)

definition leads :: "unicode \<Rightarrow> nat \<Rightarrow> moment \<Rightarrow> moment \<Rightarrow> bool" where
  "leads U i m m' \<longleftrightarrow> (\<forall>c. at_moment i m c \<longrightarrow> (\<exists>as c'. session_run U i as c c' \<and> at_moment i m' c'))"

lemma leads_refl [simp]: "leads U i m m"
  unfolding leads_def by (metis session_run_Nil)

lemma leads_trans [trans]: "leads U i m m' \<Longrightarrow> leads U i m' m'' \<Longrightarrow> leads U i m m''"
  unfolding leads_def by (meson session_run_append)

lemma leads_step:
  assumes "session_action i a" "\<And>c. at_moment i m c \<Longrightarrow> \<exists>c'. conn_exec U a c = Some c' \<and> at_moment i m' c'"
  shows "leads U i m m'"
  unfolding leads_def using assms session_run_single by blast

lemmas moment_simps = at_moment_def conn_exec_def writer_simps SetSSOVerified_def

lemma leads_check: "leads U i (Starting w, st, n) (check_phase w st, st, n)"
  by (rule leads_step [where a = "Check i"]) (auto simp: moment_simps)

lemma leads_refused: "leads U i (Confirming w, st, n) (Ended, st, n)"
  by (rule leads_step [where a = "ConfirmationFails i"]) (auto simp: moment_simps)

lemma leads_confirmed:
  assumes "SSOEnforceUserMatch st \<Longrightarrow> MatchesSSHUser U identity (sso_client_user (Some st))"
  shows "leads U i (Confirming w, st, n) (Admitted w, st\<lparr>SSOVerified := True\<rparr>, n)"
  by (rule leads_step [where a = "Confirmed i identity"]) (use assms in \<open>auto simp: moment_simps\<close>)

lemma leads_route:
  assumes "route_session U w n st = (Returns r, n')"
  shows "leads U i (Admitted w, st, n) (case r of Inl e \<Rightarrow> Ended | Inr ts \<Rightarrow> Routed w ts, st, n')"
  by (rule leads_step [where a = "Route i"]) (use assms in \<open>auto simp: moment_simps\<close>)

abbreviation with_target :: "string \<Rightarrow> string \<Rightarrow> string \<Rightarrow> session_state \<Rightarrow> session_state" where
  "with_target u h p st \<equiv> st\<lparr>TargetUser := u, TargetHost := h, TargetPort := p\<rparr>"

lemma leads_unresolvable:
  assumes "resolveTargetAddress U t (ClientUser st) = Inl e"
  shows "leads U i (Routed w (t # ts), st, n) (Routed w ts, st, n)"
  by (rule leads_step [where a = "Dial i"]) (use assms in \<open>auto simp: moment_simps\<close>)

lemma leads_dial:
  assumes "resolveTargetAddress U t (ClientUser st) = Inr (u, h, p)"
  shows "leads U i (Routed w (t # ts), st, n) (Dialling w ts u h p, with_target u h p st, n)"
  by (rule leads_step [where a = "Dial i"]) (use assms in \<open>auto simp: moment_simps\<close>)

lemma leads_fails: "leads U i (Dialling w ts u h p, st, n) (Routed w ts, st, n)"
  by (rule leads_step [where a = "DialFails i"]) (auto simp: moment_simps)

lemma leads_give_up: "leads U i (Routed w [], st, n) (Ended, st, n)"
  by (rule leads_step [where a = "GiveUp i"]) (auto simp: moment_simps)

lemma leads_reached: "leads U i (Dialling w ts u h p, st, n) (Dialled w client, with_target u h p (st\<lparr>TargetClient := Some client\<rparr>), n)"
proof -
  have "leads U i (Dialling w ts u h p, st, n) (Reached w client u h p, st\<lparr>TargetClient := Some client\<rparr>, n)"
    by (rule leads_step [where a = "DialSucceeds i client"]) (auto simp: moment_simps)
  also have "leads U i \<dots> (Dialled w client, with_target u h p (st\<lparr>TargetClient := Some client\<rparr>), n)"
    by (rule leads_step [where a = "Publish i"]) (auto simp: moment_simps)
  finally show ?thesis .
qed

lemma leads_session: "leads U i (Dialled w client, st, n) (InSession w client s, st\<lparr>TargetSession := Some s\<rparr>, n)"
  by (rule leads_step [where a = "NewSession i s"]) (auto simp: moment_simps)

lemma leads_fail:
  "leads U i (Dialled w client, st, n) (Releasing 1, st, n)"
  "leads U i (InSession w client s, st, n) (Releasing 2, st, n)"
  by (rule leads_step [where a = "Fail i"], auto simp: moment_simps)+

lemma leads_recorded: "leads U i (InSession w client s, st, n) (Releasing 2, st\<lparr>Recorder := None\<rparr>, n)"
proof -
  have "leads U i (InSession w client s, st, n) (Attached w client s r, st\<lparr>Recorder := Some r\<rparr>, n)" for r
    by (rule leads_step [where a = "Attach i r"]) (auto simp: moment_simps phase_of_def)
  also have "leads U i (Attached w client s r, st\<lparr>Recorder := Some r\<rparr>, n) (Releasing 2, st\<lparr>Recorder := None\<rparr>, n)" for r
    by (rule leads_step [where a = "Fail i"]) (auto simp: moment_simps)
  finally show ?thesis .
qed

lemma leads_release:
  "leads U i (Releasing 1, st, n) (Ended, st\<lparr>TargetClient := None\<rparr>, n)"
  "leads U i (Releasing 2, st, n) (Ended, st\<lparr>TargetSession := None, TargetClient := None\<rparr>, n)"
proof -
  show last: "leads U i (Releasing 1, st, n) (Ended, st\<lparr>TargetClient := None\<rparr>, n)" for st
    by (rule leads_step [where a = "Release i"]) (auto simp: moment_simps)
  have "leads U i (Releasing 2, st, n) (Releasing 1, st\<lparr>TargetSession := None\<rparr>, n)"
    by (rule leads_step [where a = "Release i"]) (auto simp: moment_simps)
  also have "leads U i \<dots> (Ended, st\<lparr>TargetSession := None, TargetClient := None\<rparr>, n)"
    using last [of "st\<lparr>TargetSession := None\<rparr>"] by simp
  finally show "leads U i (Releasing 2, st, n) (Ended, st\<lparr>TargetSession := None, TargetClient := None\<rparr>, n)" .
qed

section \<open>The dials\<close>

definition dialled :: "spawned \<Rightarrow> session_state \<Rightarrow> u64 \<Rightarrow> connection option \<Rightarrow> moment" where
  "dialled w st n r = (case r of
     None \<Rightarrow> (Ended, st, n)
   | Some (client, u, h, p) \<Rightarrow> (Dialled w client, with_target u h p (st\<lparr>TargetClient := Some client\<rparr>), n))"

text \<open>The loop over the targets, in the order and the number of the attempts it makes.\<close>

lemma leads_targets:
  "try_targets U connect ts (Some st, k, fs) = ((s', k', fs'), r)
     \<Longrightarrow> \<exists>st'. s' = Some st' \<and> leads U i (Routed w ts, st, n) (dialled w st' n r)"
proof (induction ts arbitrary: st k fs)
  case Nil
  then show ?case using leads_give_up by (auto simp: dialled_def)
next
  case (Cons t ts)
  show ?case
  proof (cases "resolveTargetAddress U t (ClientUser st)")
    case (Inl e)
    with Cons.prems have "try_targets U connect ts (Some st, Suc k, fs @ [Unresolvable t e]) = ((s', k', fs'), r)"
      by (simp add: ClientUserValue_def)
    from Cons.IH [OF this] leads_trans [OF leads_unresolvable [OF Inl]] show ?thesis by blast
  next
    case (Inr uhp)
    obtain u h p where uhp: "uhp = (u, h, p)" by (cases uhp)
    note dial = leads_dial [OF Inr [unfolded uhp], of i w ts n]
    show ?thesis
    proof (cases "connect (Suc k) (Some (with_target u h p st)) u h p")
      case (Inr client)
      with Cons.prems \<open>_ = Inr uhp\<close> uhp have "s' = Some (with_target u h p st)" "r = Some (client, u, h, p)"
        by (auto simp: ClientUserValue_def SetTarget_def)
      moreover have "leads U i (Routed w (t # ts), st, n) (dialled w (with_target u h p st) n (Some (client, u, h, p)))"
        using leads_trans [OF dial leads_reached] by (simp add: dialled_def)
      ultimately show ?thesis by blast
    next
      case (Inl e)
      with Cons.prems(1) \<open>_ = Inr uhp\<close> uhp obtain fs2
        where "try_targets U connect ts (Some (with_target u h p st), Suc k, fs2) = ((s', k', fs'), r)"
        by (auto simp: ClientUserValue_def SetTarget_def)
      from Cons.IH [OF this] leads_trans [OF leads_trans [OF dial leads_fails]] show ?thesis by blast
    qed
  qed
qed

text \<open>The whole connection, with the plan of the transition system.\<close>

lemma connect_as_planned:
  assumes "connectToFirstAvailableTarget U connect (Some st) ts = (s', Returns r)"
  shows "\<exists>attempts st'. connect_plan (Some st) ts = Returns attempts \<and> s' = Some st'
     \<and> leads U i (Routed w attempts, st, n) (dialled w st' n (case r of Inl e \<Rightarrow> None | Inr c \<Rightarrow> Some c))"
proof (cases "ts = []")
  case True
  with assms leads_give_up show ?thesis
    by (auto simp: connectToFirstAvailableTarget_def connect_plan_def dialled_def)
next
  case False
  with assms have room: "make_strings (total_attempts (Some st) ts)"
    by (auto simp: connectToFirstAvailableTarget_def split: if_splits)
  let ?attempts = "concat (replicate (nat (connect_rounds (Some st))) ts)"
  obtain s1 k fs q where loop: "try_targets U connect ?attempts (Some st, 0, []) = ((s1, k, fs), q)"
    by (metis prod_cases3 surj_pair)
  have "s1 = s'" "q = (case r of Inl e \<Rightarrow> None | Inr c \<Rightarrow> Some c)"
    using assms False room loop
    by (auto simp: connectToFirstAvailableTarget_def try_rounds_flat split: option.splits)
  with leads_targets [OF loop, of i w n] False room show ?thesis by (auto simp: connect_plan_def)
qed

lemma connect_panics:
  "connectToFirstAvailableTarget U connect s ts = (s', Panics p) \<Longrightarrow> s' = s \<and> connect_plan s ts = Panics p"
  by (auto simp: connectToFirstAvailableTarget_def connect_plan_def split: if_splits prod.splits option.splits)

section \<open>The session on the target\<close>

lemma leads_with_session:
  assumes "with_session U F W (Some st) client u h p cmd = (err, s', es)"
  shows "\<exists>st'. s' = Some st' \<and> leads U i (Dialled w client, st, n) (Ended, st'\<lparr>TargetClient := None\<rparr>, n)"
proof (cases "wNewSession W client")
  case None
  with assms leads_trans [OF leads_fail(1) leads_release(1)] show ?thesis by (auto simp: with_session_def)
next
  case (Some s)
  obtain err2 s2 es2 where rec: "with_recording U F W (Some (st\<lparr>TargetSession := Some s\<rparr>)) s u h p cmd = (err2, s2, es2)"
    by (metis prod_cases3)
  with Some assms have s': "s' = SetTargetSession s2 None" by (auto simp: with_session_def SetTargetSession_def)
  have "s2 = Some (st\<lparr>TargetSession := Some s\<rparr>) \<or> s2 = Some (st\<lparr>TargetSession := Some s, Recorder := None\<rparr>)"
    using with_recording_part [OF rec] by (auto simp: SetRecorder_def)
  then obtain st2 where st2: "s2 = Some st2"
      "leads U i (InSession w client s, st\<lparr>TargetSession := Some s\<rparr>, n) (Releasing 2, st2, n)"
    using leads_fail(2) leads_recorded [where st = "st\<lparr>TargetSession := Some s\<rparr>"] by fastforce
  from leads_trans [OF leads_trans [OF leads_session this(2)] leads_release(2)]
  show ?thesis using s' st2(1) by (auto simp: SetTargetSession_def)
qed

text \<open>A proxied session is led to its end, or to the moment at which its route panics.\<close>

definition route_panics :: "unicode \<Rightarrow> spawned \<Rightarrow> session_state \<Rightarrow> u64 \<Rightarrow> bool" where
  "route_panics U w st n \<longleftrightarrow> (\<exists>p n'. route_session U w n st = (Panics p, n'))"

definition proxied :: "unicode \<Rightarrow> nat \<Rightarrow> spawned \<Rightarrow> session_state \<Rightarrow> u64 \<Rightarrow> 'e outcome \<Rightarrow> session_state \<Rightarrow> u64 \<Rightarrow> bool" where
  "proxied U i w st n err st' n' \<longleftrightarrow> (case err of
     Panics p \<Rightarrow> st' = st \<and> route_panics U w st n
   | Returns e \<Rightarrow> leads U i (Admitted w, st, n) (Ended, st', n'))"

lemma leads_proxySession:
  assumes run: "proxySession U F W [] (command_of w) x = (err, x')" and st: "xState x = Some st"
  shows "\<exists>st'. xState x' = Some st' \<and> proxied U i w st (xCounter x) err st' (xCounter x')"
  using run
proof (cases rule: proxySession_cases)
  case (panic p c)
  with st show ?thesis by (auto simp: proxied_def route_panics_def route_session_def)
next
  case (unrouted e c)
  with st leads_route [of U w "xCounter x" st "Inl e" c i] show ?thesis
    by (simp add: proxied_def route_session_def)
next
  case (unconnected c ts s1 q)
  note route = unconnected(1) [unfolded st]
  show ?thesis
  proof (cases q)
    case (Panics p)
    have "s1 = Some st" "connect_plan (Some st) ts = Panics p"
      using connect_panics [OF unconnected(2) [unfolded st Panics]] by blast+
    with route unconnected Panics show ?thesis
      by (auto simp: proxied_def route_panics_def route_session_def)
  next
    case (Returns e)
    from connect_as_planned [OF unconnected(2) [unfolded st Returns], of i w c] obtain attempts st1
      where plan: "connect_plan (Some st) ts = Returns attempts" "s1 = Some st1"
      "leads U i (Routed w attempts, st, c) (dialled w st1 c (case e of Inl e \<Rightarrow> None | Inr c \<Rightarrow> Some c))" by blast
    have "leads U i (Admitted w, st, xCounter x) (Routed w attempts, st, c)"
      using leads_route [of U w "xCounter x" st "Inr attempts" c i] route plan(1) by (simp add: route_session_def)
    from leads_trans [OF this plan(3)] plan(2) unconnected(3,4) Returns show ?thesis
      by (auto simp: proxied_def dialled_def)
  qed
next
  case (session c ts s1 client u h p s2 es)
  note route = session(1) [unfolded st]
  from connect_as_planned [OF session(2) [unfolded st], of i w c] obtain attempts st1
    where plan: "connect_plan (Some st) ts = Returns attempts" "s1 = Some st1"
    "leads U i (Routed w attempts, st, c) (dialled w st1 c (Some (client, u, h, p)))" by auto
  let ?st = "with_target u h p (st1\<lparr>TargetClient := Some client\<rparr>)"
  have w: "with_session U F W (Some ?st) client u h p (command_of w) = (err, s2, es)"
    using session(3) plan(2) by (simp add: SetTarget_def SetTargetClient_def)
  from leads_with_session [OF this] obtain st2
    where st2: "s2 = Some st2" "leads U i (Dialled w client, ?st, c) (Ended, st2\<lparr>TargetClient := None\<rparr>, c)" by blast
  obtain e where "err = Returns e" using with_session_returns w by (metis prod.inject)
  have "leads U i (Admitted w, st, xCounter x) (Routed w attempts, st, c)"
    using leads_route [of U w "xCounter x" st "Inr attempts" c i] route plan(1) by (simp add: route_session_def)
  from leads_trans [OF this plan(3)] have "leads U i (Admitted w, st, xCounter x) (Dialled w client, ?st, c)"
    by (simp add: dialled_def)
  with \<open>err = Returns e\<close> show ?thesis using leads_trans [OF _ st2(2)] session(4) st2(1)
    by (auto simp: proxied_def SetTargetClient_def)
qed

section \<open>The handlers\<close>

text \<open>The handler of a goroutine, and the rest of it once direct commands are known to be allowed.\<close>

definition handler :: "unicode \<Rightarrow> device_auth \<Rightarrow> clock_format \<Rightarrow> session_world \<Rightarrow> spawned \<Rightarrow> proxy_ctx \<Rightarrow> proxy_ctx" where
  "handler U auth F W w x =
     (case w of SpawnShell \<Rightarrow> handleShellProxy U auth F W x
      | SpawnExec command \<Rightarrow> handleExecProxy U auth F W command x)"

lemma handler_stages:
  assumes "xState x = Some st" "w \<noteq> SpawnShell \<longrightarrow> AllowDirectCommands st"
    and "ensureSSOAuthentication U auth x = (r, x1)" "proxySession U F W [] (command_of w) x1 = (err, x2)"
  shows "xState (handler U auth F W w x) = (case r of Inl e \<Rightarrow> xState x1 | Inr _ \<Rightarrow> xState x2)"
    and "xCounter (handler U auth F W w x) = (case r of Inl e \<Rightarrow> xCounter x1 | Inr _ \<Rightarrow> xCounter x2)"
    and "xPanic (handler U auth F W w x)
      = (case r of Inr _ \<Rightarrow> (case err of Panics p \<Rightarrow> Some p | Returns _ \<Rightarrow> xPanic x) | Inl e \<Rightarrow> xPanic x)"
  using assms session_result_counted(1) [OF assms(4)] ensure_keeps(1) [OF assms(3)]
  by (cases w; cases r; cases err;
      simp add: handler_def handleShellProxy_def handleExecProxy_def command_of_def)+

lemma ensure_counter: "ensureSSOAuthentication U auth x = (r, x1) \<Longrightarrow> xCounter x1 = xCounter x"
  by (auto simp: ensureSSOAuthentication_def Let_def split: option.splits prod.splits sum.splits if_splits)

lemma leads_ensure:
  assumes "ensureSSOAuthentication U auth x = (r, x1)" "xState x = Some st"
    and allowed: "w \<noteq> SpawnShell \<longrightarrow> AllowDirectCommands st"
  shows "\<exists>st'. xState x1 = Some st' \<and> leads U i (Starting w, st, n) (case r of Inl e \<Rightarrow> Ended | Inr _ \<Rightarrow> Admitted w, st', n)"
proof -
  note cases = ensure_SSO_cases [where U = U and auth = auth and x = x, unfolded assms(1)]
  have check: "leads U i (Starting w, st, n) (if \<not> SSOEnabled st \<or> SSOVerified st then Admitted w else Confirming w, st, n)"
    using leads_check [of U i w st n] allowed by (cases w) (auto simp: check_phase_def split: if_splits)
  show ?thesis
  proof (cases r)
    case (Inl e)
    have "SSOEnabled st \<and> \<not> SSOVerified st"
      using assms(1,2) Inl by (auto simp: ensureSSOAuthentication_def IsSSOVerified_def split: if_splits)
    with check have "leads U i (Starting w, st, n) (Confirming w, st, n)" by simp
    with leads_refused leads_trans have "leads U i (Starting w, st, n) (Ended, st, n)" by blast
    with cases Inl assms(2) show ?thesis by simp
  next
    case (Inr u)
    consider "xState x1 = Some st" "\<not> SSOEnabled st \<or> SSOVerified st"
      | identity where "xState x1 = Some (st\<lparr>SSOVerified := True\<rparr>)"
        "SSOEnforceUserMatch st \<Longrightarrow> MatchesSSHUser U identity (sso_client_user (Some st))"
      using cases Inr assms(2) by (auto simp: IsSSOVerified_def SetSSOVerified_def)
    then show ?thesis
    proof cases
      case 1
      with check Inr show ?thesis by auto
    next
      case (2 identity)
      show ?thesis
      proof (cases "\<not> SSOEnabled st \<or> SSOVerified st")
        case True
        with assms(1,2) have "x1 = x" by (auto simp: ensureSSOAuthentication_def IsSSOVerified_def)
        with True check assms(2) Inr show ?thesis by auto
      next
        case False
        with leads_trans [OF check] leads_confirmed [OF 2(2)] 2(1) Inr show ?thesis by auto
      qed
    qed
  qed
qed

text \<open>
  C4. The handlers refine the transition system. Whatever the world answers, a run of the shell or
  exec handler is a sequence of steps of its own session alone, which leaves every other channel
  as it is: from the moment its goroutine starts it goes to the end of the session, and the shared
  state and the route counter afterwards are the ones of the handler. If the handler panics, the
  steps lead to the choice of the route, and it is the next step that panics. So what holds in all
  reachable states of a connection holds after the handlers.
\<close>

theorem handler_is_a_run:
  assumes "phase_of i c = Starting w" "xState x = Some (cnState c)" "xCounter x = cnCounter c" "xPanic x = None"
  shows "\<exists>as c'. conn_run U as c = Some c' \<and> list_all (session_action i) as \<and> only_channel i c c'
    \<and> xState (handler U auth F W w x) = Some (cnState c')
    \<and> (if xPanic (handler U auth F W w x) = None
       then phase_of i c' = Ended \<and> xCounter (handler U auth F W w x) = cnCounter c'
       else phase_of i c' = Admitted w \<and> (\<exists>p n. route_session U w (cnCounter c') (cnState c') = (Panics p, n)))"
proof -
  let ?st = "cnState c" and ?n = "cnCounter c" and ?x = "handler U auth F W w x"
  have here: "at_moment i (Starting w, ?st, ?n) c" using assms(1) phase_bound by (auto simp: at_moment_def)
  have "\<exists>st' p n'. xState ?x = Some st' \<and> leads U i (Starting w, ?st, ?n) (p, st', n')
      \<and> (if xPanic ?x = None then p = Ended \<and> xCounter ?x = n' else p = Admitted w \<and> route_panics U w st' n')"
  proof (cases "w \<noteq> SpawnShell \<longrightarrow> AllowDirectCommands ?st")
    case False
    then obtain command where w: "w = SpawnExec command" by (cases w) auto
    with False assms(2-4) have "xState ?x = Some ?st" "xCounter ?x = ?n" "xPanic ?x = None"
      by (simp_all add: handler_def handleExecProxy_def)
    with leads_check [of U i w ?st ?n] False w show ?thesis by (auto simp: check_phase_def)
  next
    case True
    obtain r x1 where ens: "ensureSSOAuthentication U auth x = (r, x1)" by fastforce
    obtain err x2 where run: "proxySession U F W [] (command_of w) x1 = (err, x2)" by fastforce
    note stages = handler_stages [OF assms(2) True ens run]
    from leads_ensure [OF ens assms(2) True, of i ?n] obtain st1
      where st1: "xState x1 = Some st1" "leads U i (Starting w, ?st, ?n) (case r of Inl e \<Rightarrow> Ended | Inr _ \<Rightarrow> Admitted w, st1, ?n)" by blast
    have n: "xCounter x1 = ?n" using ensure_counter [OF ens] assms(3) by simp
    from leads_proxySession [OF run st1(1), of i] obtain st2
      where st2: "xState x2 = Some st2" "proxied U i w st1 ?n err st2 (xCounter x2)" by (auto simp: n)
    show ?thesis
    proof (cases r)
      case (Inl e)
      with st1 n stages assms(4) show ?thesis by auto
    next
      case (Inr u)
      with st1(2) have admitted: "leads U i (Starting w, ?st, ?n) (Admitted w, st1, ?n)" by simp
      show ?thesis
      proof (cases err)
        case (Panics p)
        with Inr stages st2 admitted show ?thesis by (auto simp: proxied_def)
      next
        case (Returns e)
        with Inr stages st2 leads_trans [OF admitted] assms(4) show ?thesis by (auto simp: proxied_def)
      qed
    qed
  qed
  then obtain st' p n' where final: "xState ?x = Some st'" "leads U i (Starting w, ?st, ?n) (p, st', n')"
    "if xPanic ?x = None then p = Ended \<and> xCounter ?x = n' else p = Admitted w \<and> route_panics U w st' n'" by blast
  from final(2) here obtain as c' where "session_run U i as c c'" "at_moment i (p, st', n') c'" unfolding leads_def by blast
  with final(1,3) show ?thesis
    by (intro exI [of _ as] exI [of _ c']) (auto simp: session_run_def at_moment_def route_panics_def)
qed

section \<open>A concrete handler\<close>

definition starting_conn :: conn where
  "starting_conn = \<lparr>cnState = the (xState sample_ctx),
     cnChannels = [open_channel\<lparr>ccPhase := Starting (SpawnExec ''ls'')\<rparr>], cnCounter = 0, cnIdentity = None\<rparr>"

lemma handler_is_a_run_witness:
  "\<exists>as c'. conn_run ascii_tables as starting_conn = Some c' \<and> list_all (session_action 0) as \<and> phase_of 0 c' = Ended
     \<and> xState sample_exec = Some (cnState c')"
proof -
  have "phase_of 0 starting_conn = Starting (SpawnExec ''ls'')" "xState sample_ctx = Some (cnState starting_conn)"
    "xCounter sample_ctx = cnCounter starting_conn" "xPanic sample_ctx = None"
    by (simp_all add: phase_of_def starting_conn_def sample_ctx_def)
  moreover have "xPanic sample_exec = None" by code_simp
  ultimately show ?thesis
    using handler_is_a_run [of 0 starting_conn "SpawnExec ''ls''" sample_ctx ascii_tables confirms_alice sample_clock sample_session_world]
    by (auto simp: handler_def sample_exec_def)
qed

end
