(* ===== verification/Host_Key.thy ===== *)
theory Host_Key
  imports Proxy_Prelude
begin

text \<open>
  \<open>internal/hostkey/hostkey.go\<close>: the proxy's own host key, loaded from its file or generated and
  stored there. The file system is a map from paths to contents; the RSA generator, the PEM
  printer, the parser of private keys and the constructor of signers are library calls and
  fields of \<open>host_world\<close>, as are the failures of the file operations.
\<close>

datatype host_key_error =
    KeyReadFailed | KeyParseFailed | KeyGenerateFailed | KeyCreateFailed | KeyEncodeFailed | KeySignerFailed

type_synonym key_files = "string \<Rightarrow> bytes option"

record ('k, 's) host_world =
  hwStatFails :: "string \<Rightarrow> bool"
  hwReadFails :: "string \<Rightarrow> bool"
  hwOpenFails :: "string \<Rightarrow> bool"
  hwSpace :: nat
  hwParsePrivateKey :: "bytes \<Rightarrow> 's option"
  hwGenerateKey :: "'k option"
  hwEncodePEM :: "'k \<Rightarrow> bytes"
  hwNewSigner :: "'k \<Rightarrow> 's option"

text \<open>Writing from the start of a file that was opened without truncation.\<close>

definition write_over :: "bytes \<Rightarrow> bytes \<Rightarrow> bytes" where
  "write_over data old = data @ drop (length data) old"

definition LoadOrGenerateHostKey ::
  "('k, 's) host_world \<Rightarrow> string \<Rightarrow> key_files \<Rightarrow> (host_key_error + 's) \<times> key_files" where
  "LoadOrGenerateHostKey W keyPath fs =
     (if fs keyPath \<noteq> None \<and> \<not> hwStatFails W keyPath then
        (if hwReadFails W keyPath then (Inl KeyReadFailed, fs)
         else (case hwParsePrivateKey W (the (fs keyPath)) of
             None \<Rightarrow> (Inl KeyParseFailed, fs)
           | Some signer \<Rightarrow> (Inr signer, fs)))
      else
        (case hwGenerateKey W of
           None \<Rightarrow> (Inl KeyGenerateFailed, fs)
         | Some privateKey \<Rightarrow>
             if hwOpenFails W keyPath then (Inl KeyCreateFailed, fs)
             else
               (let old = (case fs keyPath of None \<Rightarrow> [] | Some b \<Rightarrow> b);
                    pem = hwEncodePEM W privateKey;
                    fs = fs(keyPath \<mapsto> write_over (take (hwSpace W) pem) old)
                in if hwSpace W < length pem then (Inl KeyEncodeFailed, fs)
                   else (case hwNewSigner W privateKey of
                       None \<Rightarrow> (Inl KeySignerFailed, fs)
                     | Some signer \<Rightarrow> (Inr signer, fs)))))"

section \<open>The key is kept\<close>

text \<open>What the key library promises: a printed key parses to its signer.\<close>

definition pem_roundtrip :: "('k, 's) host_world \<Rightarrow> bool" where
  "pem_roundtrip W \<longleftrightarrow> (\<forall>k s. hwNewSigner W k = Some s \<longrightarrow> hwParsePrivateKey W (hwEncodePEM W k) = Some s)"

lemma generated:
  assumes "LoadOrGenerateHostKey W keyPath fs = (Inr s, fs')" "fs keyPath = None"
  shows "\<exists>k. hwGenerateKey W = Some k \<and> hwNewSigner W k = Some s \<and> fs' = fs(keyPath \<mapsto> hwEncodePEM W k)"
  using assms
  by (auto simp: LoadOrGenerateHostKey_def Let_def write_over_def split: option.splits if_splits)

text \<open>
  C9. The proxy keeps its identity. A key file that can be seen is never written, whatever it
  holds and whatever the outcome. And where there was none, the key that is generated is the one
  every later start presents: with whatever randomness it runs, it loads the same signer and
  leaves all files alone.
\<close>

theorem host_key_stable:
  assumes "pem_roundtrip W"
  shows "(fs keyPath \<noteq> None \<and> \<not> hwStatFails W keyPath \<longrightarrow> snd (LoadOrGenerateHostKey W keyPath fs) = fs)
    \<and> (fs keyPath = None \<and> LoadOrGenerateHostKey W keyPath fs = (Inr s, fs')
         \<and> \<not> hwStatFails W keyPath \<and> \<not> hwReadFails W keyPath
       \<longrightarrow> LoadOrGenerateHostKey (W\<lparr>hwGenerateKey := other\<rparr>) keyPath fs' = (Inr s, fs')
         \<and> (\<forall>path. path \<noteq> keyPath \<longrightarrow> fs' path = fs path))"
proof (intro conjI impI)
  assume "fs keyPath \<noteq> None \<and> \<not> hwStatFails W keyPath"
  then show "snd (LoadOrGenerateHostKey W keyPath fs) = fs"
    by (simp add: LoadOrGenerateHostKey_def split: option.split)
next
  assume new: "fs keyPath = None \<and> LoadOrGenerateHostKey W keyPath fs = (Inr s, fs')
    \<and> \<not> hwStatFails W keyPath \<and> \<not> hwReadFails W keyPath"
  then obtain k where k: "hwNewSigner W k = Some s" "fs' = fs(keyPath \<mapsto> hwEncodePEM W k)"
    using generated by metis
  with assms new show "LoadOrGenerateHostKey (W\<lparr>hwGenerateKey := other\<rparr>) keyPath fs' = (Inr s, fs')"
    by (simp add: LoadOrGenerateHostKey_def pem_roundtrip_def)
  from k show "\<forall>path. path \<noteq> keyPath \<longrightarrow> fs' path = fs path" by simp
qed

text \<open>
  A failed write is not undone: the truncated key stays, and the next start fails on it instead
  of generating a key.
\<close>

lemma truncated_key_stays:
  assumes "hwSpace W < length (hwEncodePEM W k)" "hwGenerateKey W = Some k" "fs keyPath = None"
    and "\<not> hwStatFails W keyPath" "\<not> hwReadFails W keyPath" "\<not> hwOpenFails W keyPath"
    and "hwParsePrivateKey W (take (hwSpace W) (hwEncodePEM W k)) = None"
  shows "\<exists>fs'. LoadOrGenerateHostKey W keyPath fs = (Inl KeyEncodeFailed, fs')
    \<and> LoadOrGenerateHostKey (W\<lparr>hwSpace := n\<rparr>) keyPath fs' = (Inl KeyParseFailed, fs')"
  using assms by (simp add: LoadOrGenerateHostKey_def write_over_def)

section \<open>A concrete key\<close>

definition sample_host_world :: "(nat, nat) host_world" where
  "sample_host_world = \<lparr>hwStatFails = (\<lambda>_. False), hwReadFails = (\<lambda>_. False), hwOpenFails = (\<lambda>_. False),
     hwSpace = 100, hwParsePrivateKey = (\<lambda>b. if b = [] then None else Some (length b)), hwGenerateKey = Some 8,
     hwEncodePEM = (\<lambda>k. CHR ''k'' # replicate k CHR ''k''), hwNewSigner = (\<lambda>k. Some (Suc k))\<rparr>"

lemma sample_host_roundtrip: "pem_roundtrip sample_host_world"
  by (simp add: pem_roundtrip_def sample_host_world_def)

lemma host_key_stable_witness:
  "LoadOrGenerateHostKey (sample_host_world\<lparr>hwGenerateKey := Some 3\<rparr>) ''key'' [''key'' \<mapsto> CHR ''k'' # replicate 8 CHR ''k'']
     = (Inr 9, [''key'' \<mapsto> CHR ''k'' # replicate 8 CHR ''k''])"
proof -
  have "LoadOrGenerateHostKey sample_host_world ''key'' Map.empty = (Inr 9, [''key'' \<mapsto> CHR ''k'' # replicate 8 CHR ''k''])"
    by (simp add: LoadOrGenerateHostKey_def sample_host_world_def write_over_def)
  moreover have "\<not> hwStatFails sample_host_world ''key''" "\<not> hwReadFails sample_host_world ''key''"
    by (simp_all add: sample_host_world_def)
  ultimately show ?thesis
    using host_key_stable [OF sample_host_roundtrip, of Map.empty "''key''" 9 _ "Some 3"] by blast
qed

end
