(* ===== verification/Server_Main.thy ===== *)
theory Server_Main
  imports Connection_Runs Host_Key
begin

text \<open>
  \<open>cmd/ssh-proxy-server/main.go\<close>: from the configuration file to the parameters that every
  connection is served with. The listeners, the environment, the file system and the decoders are
  the fields of \<open>main_world\<close>. An exit by \<open>log.Fatal\<close> is a value. The start-up log lines and the
  Prometheus handler are not modelled.
\<close>

datatype fatal =
    MissingConfig | LoadFailed config_error | InvalidLogLevel | ClientAuthoritiesFailed auth_error
  | HostAuthoritiesFailed auth_error | HostKeyFailed host_key_error | MetricsListenFailed | ListenFailed

record ('k, 's) main_world =
  mwGetenv :: "string \<Rightarrow> string"
  mwAuth :: auth_world
  mwDecodeKeys :: "bytes \<Rightarrow> string list option"
  mwDecodeInto :: "bytes \<Rightarrow> app_config \<Rightarrow> app_config option"
  mwHost :: "('k, 's) host_world"
  mwListen :: "string \<Rightarrow> bool"

record 's server_params =
  spLogLevel :: log_level
  spHostKey :: 's
  spConfig :: app_config
  spClientAuthorities :: "public_key list"
  spHostAuthorities :: "public_key list"

definition load_config :: "unicode \<Rightarrow> ('k, 's) main_world \<Rightarrow> string \<Rightarrow> fatal + app_config \<times> log_level" where
  "load_config U w configPath =
     (if TrimSpace configPath = [] then Inl MissingConfig
      else (case Load U (mwGetenv w) (mwAuth w) (mwDecodeKeys w) (mwDecodeInto w) configPath of
          Inl e \<Rightarrow> Inl (LoadFailed e)
        | Inr cfg \<Rightarrow>
            (case SetLogLevel (cLogLevel cfg) of
               None \<Rightarrow> Inl InvalidLogLevel
             | Some level \<Rightarrow> Inr (cfg, level))))"

text \<open>\<open>None\<close> is a loop over a file that the parser does not get to the end of.\<close>

definition load_authorities :: "auth_world \<Rightarrow> app_config \<Rightarrow> (fatal + public_key list \<times> public_key list) option" where
  "load_authorities W cfg =
     (case (if cTrustedCACerts cfg = [] then Some (Inr []) else LoadTrustedCACerts W (cTrustedCACerts cfg)) of
        None \<Rightarrow> None
      | Some (Inl e) \<Rightarrow> Some (Inl (ClientAuthoritiesFailed e))
      | Some (Inr trustedCACerts) \<Rightarrow>
          (case (if cTrustedHostCACerts cfg = [] then Some (Inr []) else LoadTrustedCACerts W (cTrustedHostCACerts cfg)) of
             None \<Rightarrow> None
           | Some (Inl e) \<Rightarrow> Some (Inl (HostAuthoritiesFailed e))
           | Some (Inr trustedHostCACerts) \<Rightarrow> Some (Inr (trustedCACerts, trustedHostCACerts))))"

definition open_listeners :: "('k, 's) main_world \<Rightarrow> app_config \<Rightarrow> fatal option" where
  "open_listeners w cfg =
     (if mEnabled (cMetrics cfg) \<and> \<not> mwListen w (mListen (cMetrics cfg)) then Some MetricsListenFailed
      else if \<not> mwListen w (cListen cfg) then Some ListenFailed
      else None)"

definition start_server ::
  "unicode \<Rightarrow> ('k, 's) main_world \<Rightarrow> string \<Rightarrow> key_files \<Rightarrow> (fatal + 's server_params) option \<times> key_files" where
  "start_server U w configPath fs =
     (case load_config U w configPath of
        Inl e \<Rightarrow> (Some (Inl e), fs)
      | Inr (cfg, level) \<Rightarrow>
          (case load_authorities (mwAuth w) cfg of
             None \<Rightarrow> (None, fs)
           | Some (Inl e) \<Rightarrow> (Some (Inl e), fs)
           | Some (Inr (cas, hostCAs)) \<Rightarrow>
               (case LoadOrGenerateHostKey (mwHost w) (cKey cfg) fs of
                  (Inl e, fs) \<Rightarrow> (Some (Inl (HostKeyFailed e)), fs)
                | (Inr hostKey, fs) \<Rightarrow>
                    (case open_listeners w cfg of
                       Some e \<Rightarrow> (Some (Inl e), fs)
                     | None \<Rightarrow> (Some (Inr \<lparr>spLogLevel = level, spHostKey = hostKey, spConfig = cfg,
                         spClientAuthorities = cas, spHostAuthorities = hostCAs\<rparr>), fs)))))"

text \<open>The state of a connection that the accept loop hands to \<open>HandleConnection\<close>.\<close>

definition serve :: "unicode \<Rightarrow> 's server_params \<Rightarrow> string \<Rightarrow> public_key option \<Rightarrow> handle \<Rightarrow> session_state" where
  "serve U P user clientKey sshConn =
     (let cfg = spConfig P in
      connection_state U user clientKey sshConn (cRecordingsDir cfg) (cAllowDirectCommands cfg)
        (cInsecureIgnoreHostKey cfg) (cRecordingFormat cfg) (main_routing_config cfg) (main_sso_config cfg)
        (spHostAuthorities P))"

definition authorize :: "auth_world \<Rightarrow> 's server_params \<Rightarrow> public_key \<Rightarrow> public_key option \<Rightarrow> bool \<times> public_key option" where
  "authorize W P key clientKey =
     public_key_callback W (cAuthorizedKeys (spConfig P)) (spClientAuthorities P)
       (cAutoAcceptClientKeys (spConfig P)) key clientKey"

section \<open>From the document to the connection\<close>

lemma config_level: "config_ok U c \<Longrightarrow> SetLogLevel (cLogLevel c) \<noteq> None"
  by (auto simp: config_ok_def SetLogLevel_def)

lemma server_resolves:
  assumes "server_ok U t" "isSafeTargetUser U (TrimSpace user)"
  shows "\<exists>r. resolveTargetAddress U t user = Inr r"
  using assms
  by (auto simp: server_ok_def ValidateTargetAddress_def resolveTargetAddress_def try_bind_def Let_def
      split: sum.splits)

lemma start_server_InrD:
  assumes "start_server U w path fs = (Some (Inr P), fs')"
  shows "Load U (mwGetenv w) (mwAuth w) (mwDecodeKeys w) (mwDecodeInto w) path = Inr (spConfig P)"
    and "SetLogLevel (cLogLevel (spConfig P)) = Some (spLogLevel P)"
    and "load_authorities (mwAuth w) (spConfig P) = Some (Inr (spClientAuthorities P, spHostAuthorities P))"
    and "LoadOrGenerateHostKey (mwHost w) (cKey (spConfig P)) fs = (Inr (spHostKey P), fs')"
    and "open_listeners w (spConfig P) = None"
  using assms
  by (auto simp: start_server_def load_config_def simp del: LoadOrGenerateHostKey_def
      split: if_splits sum.splits option.splits prod.splits)

text \<open>A configuration that loads never makes \<open>SetLogLevel\<close> exit.\<close>

lemma log_level_not_fatal: "fst (start_server U w path fs) \<noteq> Some (Inl InvalidLogLevel)"
proof
  assume "fst (start_server U w path fs) = Some (Inl InvalidLogLevel)"
  then obtain cfg where "Load U (mwGetenv w) (mwAuth w) (mwDecodeKeys w) (mwDecodeInto w) path = Inr cfg"
    "SetLogLevel (cLogLevel cfg) = None"
    by (auto simp: start_server_def load_config_def load_authorities_def open_listeners_def
        split: if_splits sum.splits option.splits prod.splits)
  then show False using load_sound config_level by blast
qed

lemma serve_policy [simp]:
  "AllowDirectCommands (serve U P user key h) = cAllowDirectCommands (spConfig P)"
  "SSOEnabled (serve U P user key h) = ssoEnabled (cSSO (spConfig P))"
  "SSOEnforceUserMatch (serve U P user key h) = ssoEnforceSSHUserMatch (cSSO (spConfig P))"
  "StaticRoutingEnabled (serve U P user key h) = srEnabled (cStaticRouting (spConfig P))"
  "StaticTargets (serve U P user key h) = srServers (cStaticRouting (spConfig P))"
  "ClientUser (serve U P user key h) = user" "\<not> SSOVerified (serve U P user key h)"
  by (simp_all add: serve_def main_routing_config_def main_sso_config_def Let_def)

lemma serve_fields:
  "ConnectRetries (serve U P user key h) = (if cRetries (spConfig P) < 0 then 0 else cRetries (spConfig P))"
  "ConnectTimeout (serve U P user key h) = positive_or (seconds (cConnectTimeoutSeconds (spConfig P))) (seconds DefaultConnectTimeoutSeconds)"
  by (simp_all add: serve_def connection_state_def main_routing_config_def Let_def)

text \<open>
  C8. A proxy that starts is usable, and does what its document says. If start-up gets to the
  accept loop, the file was readable and decoded over the defaults; the switches that decide
  about keys, commands, host keys, the second factor and routing are the document's, and so are
  the trimmed servers; the legacy retries count exactly when the top-level key is missing. Every
  connection then starts with a positive dial timeout, and with static routing on it has at least
  one target, each of which resolves for every login whose name is a safe user.
\<close>

theorem startup_sound:
  assumes "start_server U w path fs = (Some (Inr P), fs')"
  shows "\<exists>data raw cfg. ReadFile (mwAuth w) path = Some data \<and> mwDecodeKeys w data = Some raw
    \<and> mwDecodeInto w data (Default (mwGetenv w) (mwAuth w)) = Some cfg
    \<and> config_ok U (spConfig P) \<and> switches (spConfig P) = switches cfg
    \<and> (let st = serve U P user key h in
        StaticTargets st = map TrimSpace (srServers (cStaticRouting cfg))
        \<and> ConnectRetries st = (if ''retries'' \<in> set raw \<or> srRetries (cStaticRouting cfg) \<le> 0 then cRetries cfg
             else srRetries (cStaticRouting cfg))
        \<and> 0 < ConnectTimeout st
        \<and> (srEnabled (cStaticRouting cfg) \<longrightarrow> StaticTargets st \<noteq> [])
        \<and> (isSafeTargetUser U (TrimSpace user) \<longrightarrow>
             list_all (\<lambda>t. \<exists>r. resolveTargetAddress U t user = Inr r) (StaticTargets st)))"
proof -
  from load_sound [OF start_server_InrD(1) [OF assms]] obtain data raw cfg where
    doc: "ReadFile (mwAuth w) path = Some data" "mwDecodeKeys w data = Some raw"
      "mwDecodeInto w data (Default (mwGetenv w) (mwAuth w)) = Some cfg"
      "config_ok U (spConfig P)" "switches (spConfig P) = switches cfg"
      "srServers (cStaticRouting (spConfig P)) = map TrimSpace (srServers (cStaticRouting cfg))"
      "cRetries (spConfig P) = (if ''retries'' \<in> set raw \<or> srRetries (cStaticRouting cfg) \<le> 0 then cRetries cfg
         else srRetries (cStaticRouting cfg))"
    by blast
  let ?st = "serve U P user key h"
  note targets = serve_policy(5)
  have servers: "list_all (server_ok U) (srServers (cStaticRouting (spConfig P)))" "0 \<le> cRetries (spConfig P)"
    "\<not> srEnabled (cStaticRouting (spConfig P)) \<or> srServers (cStaticRouting (spConfig P)) \<noteq> []"
    using doc(4) by (simp_all add: config_ok_def)
  have enabled: "srEnabled (cStaticRouting (spConfig P)) = srEnabled (cStaticRouting cfg)"
    using doc(5) by (simp add: switches_def)
  have "seconds DefaultConnectTimeoutSeconds = 10000000000"
    unfolding DefaultConnectTimeoutSeconds_def by (rule trans [OF seconds_small]) simp_all
  then have "0 < ConnectTimeout ?st" by (simp add: serve_fields(2) positive_or_def)
  moreover have "list_all (\<lambda>t. \<exists>r. resolveTargetAddress U t user = Inr r) (StaticTargets ?st)"
    if "isSafeTargetUser U (TrimSpace user)"
    using servers(1) server_resolves that unfolding targets list_all_iff by blast
  moreover have "ConnectRetries ?st = cRetries (spConfig P)" using servers(2) by (simp add: serve_fields(1))
  ultimately show ?thesis
    using doc targets servers(3) enabled unfolding Let_def by (intro exI [of _ data] exI [of _ raw] exI [of _ cfg]) auto
qed

text \<open>
  From the document to the dial: what the gates of a connection mean in terms of the document
  that the proxy was started with.
\<close>

lemma document_governs:
  assumes start: "start_server U w path fs = (Some (Inr P), fs')"
    and ok: "gates_ok U (serve U P user key h) c"
    and dial: "phase_of i c = Dialling sp ts u host p"
  shows "\<exists>data cfg. ReadFile (mwAuth w) path = Some data
    \<and> mwDecodeInto w data (Default (mwGetenv w) (mwAuth w)) = Some cfg
    \<and> (case sp of SpawnShell \<Rightarrow> True | SpawnExec command \<Rightarrow> cAllowDirectCommands cfg)
    \<and> (ssoEnabled (cSSO cfg) \<longrightarrow> (\<exists>identity. cnIdentity c = Some identity
         \<and> (ssoEnforceSSHUserMatch (cSSO cfg) \<longrightarrow>
              MatchesSSHUser U identity (if TrimSpace user \<noteq> [] then user else ''unknown''))))
    \<and> (srEnabled (cStaticRouting cfg) \<longrightarrow>
         (\<exists>t \<in> set (srServers (cStaticRouting cfg)). resolveTargetAddress U (TrimSpace t) user = Inr (u, host, p)))"
proof -
  from load_sound [OF start_server_InrD(1) [OF start]] obtain data raw cfg where
    doc: "ReadFile (mwAuth w) path = Some data" "mwDecodeInto w data (Default (mwGetenv w) (mwAuth w)) = Some cfg"
      "switches (spConfig P) = switches cfg"
      "srServers (cStaticRouting (spConfig P)) = map TrimSpace (srServers (cStaticRouting cfg))"
    by blast
  let ?st0 = "serve U P user key h"
  have same: "fixed (cnState c) = fixed ?st0" using ok by (simp add: gates_ok_def)
  have phase: "admitted_ok (cnState c) sp" "dialled_ok U (cnState c) u host p"
    using gates_ok_phase [OF ok dial] by simp_all
  have user: "ClientUser ?st0 = user" "SSOEnforceUserMatch ?st0 = ssoEnforceSSHUserMatch (cSSO cfg)"
    using doc(3) by (simp_all add: switches_def)
  have "(sp \<noteq> SpawnShell \<longrightarrow> cAllowDirectCommands cfg) \<and> (ssoEnabled (cSSO cfg) \<longrightarrow> SSOVerified (cnState c))"
    using phase(1) same doc(3) by (simp add: admitted_ok_def fixed_def policy_of_def switches_def)
  moreover have "srEnabled (cStaticRouting cfg) \<longrightarrow>
      (\<exists>t \<in> set (srServers (cStaticRouting cfg)). resolveTargetAddress U (TrimSpace t) user = Inr (u, host, p))"
    using phase(2) same doc(3,4)
    by (auto simp: dialled_ok_def allowed_target_def fixed_def policy_of_def switches_def)
  moreover have "SSOVerified (cnState c) \<longrightarrow> confirmed_by U ?st0 (cnIdentity c)" using ok by (simp add: gates_ok_def)
  ultimately show ?thesis
    using doc(1,2) user
    by (intro exI [of _ data] exI [of _ cfg])
      (auto simp: confirmed_by_def sso_client_user_def ClientUserValue_def split: spawned.split)
qed

section \<open>A concrete start\<close>

definition sample_document :: "app_config \<Rightarrow> app_config" where
  "sample_document c = c\<lparr>cAllowDirectCommands := True, cSSO := (cSSO c)\<lparr>ssoEnabled := True\<rparr>,
     cStaticRouting := \<lparr>srEnabled = True, srServers = ['' db:2200''], srMode = '' Round_Robin'', srRetries = 4,
       srConnectTimeoutSeconds = 9\<rparr>\<rparr>"

definition sample_main :: "(nat, nat) main_world" where
  "sample_main = \<lparr>mwGetenv = (\<lambda>_. []), mwAuth = sample_world\<lparr>ReadFile := (\<lambda>_. Some ''doc'')\<rparr>,
     mwDecodeKeys = (\<lambda>_. Some [''static_routing'', ''sso'']), mwDecodeInto = (\<lambda>_ c. Some (sample_document c)),
     mwHost = sample_host_world, mwListen = (\<lambda>_. True)\<rparr>"

definition sample_params :: "nat server_params" where
  "sample_params = (case fst (start_server ascii_tables sample_main ''config.json'' Map.empty) of
     Some (Inr P) \<Rightarrow> P | _ \<Rightarrow> undefined)"

lemma sample_start:
  "\<exists>fs'. start_server ascii_tables sample_main ''config.json'' Map.empty = (Some (Inr sample_params), fs')"
proof -
  obtain r fs' where start: "start_server ascii_tables sample_main ''config.json'' Map.empty = (r, fs')" by fastforce
  have "map_option isl (fst (start_server ascii_tables sample_main ''config.json'' Map.empty)) = Some False" by code_simp
  with start have "\<exists>P. r = Some (Inr P)" by (auto simp: isl_def) (metis isl_def sum.exhaust)
  with start show ?thesis by (auto simp: sample_params_def)
qed

lemma startup_sound_witness:
  "config_ok ascii_tables (spConfig sample_params)
   \<and> ConnectRetries (serve ascii_tables sample_params ''alice'' None 3) = 4
   \<and> (\<exists>t r. t \<in> set (StaticTargets (serve ascii_tables sample_params ''alice'' None 3))
        \<and> resolveTargetAddress ascii_tables t ''alice'' = Inr r)"
proof -
  obtain fs' where start: "start_server ascii_tables sample_main ''config.json'' Map.empty = (Some (Inr sample_params), fs')"
    using sample_start by blast
  have "isSafeTargetUser ascii_tables (TrimSpace ''alice'')" by code_simp
  with startup_sound [OF start, of "''alice''" None 3] show ?thesis
    by (auto simp: sample_main_def sample_document_def Let_def)
qed

end
