(* ===== verification/Proxy_Server.thy ===== *)
theory Proxy_Server
  imports Server_Main
begin

text \<open>
  The running proxy: the accept loop of \<open>main\<close> and \<open>HandleConnection\<close> of
  \<open>internal/server/server.go\<close> around the transition system of theory \<open>Connection\<close>. Connections
  are served concurrently; what they share is the route counter, a package variable, and the
  metrics. What the SSH library reports of a handshake is the record \<open>handshake\<close>.
\<close>

section \<open>One connection from its handshake on\<close>

text \<open>
  The keys for which the library called the callback, in order, and, if the handshake succeeds,
  the user, the connection and the key that authenticated it.
\<close>

record handshake =
  hsOffers :: "public_key list"
  hsConn :: "(string \<times> handle \<times> public_key) option"

text \<open>What the callback leaves in the variable \<open>clientKey\<close>.\<close>

definition offered_key :: "auth_world \<Rightarrow> 's server_params \<Rightarrow> public_key list \<Rightarrow> public_key option" where
  "offered_key W P offers = fold (\<lambda>key clientKey. snd (authorize W P key clientKey)) offers None"

definition HandleConnection ::
  "unicode \<Rightarrow> auth_world \<Rightarrow> 's server_params \<Rightarrow> handshake \<Rightarrow> collector option \<Rightarrow> session_state option \<times> collector option" where
  "HandleConnection U W P hs metrics =
     (case hsConn hs of
        None \<Rightarrow> (None, RecordSSHHandshakeFailure metrics)
      | Some (user, sshConn, key) \<Rightarrow>
          (Some (serve U P user (offered_key W P (hsOffers hs)) sshConn), SSHConnectionOpened metrics))"

text \<open>
  The contract of the library: a handshake succeeds only with a key that was offered to the
  callback and accepted by it.
\<close>

definition library_authenticates :: "auth_world \<Rightarrow> 's server_params \<Rightarrow> handshake \<Rightarrow> bool" where
  "library_authenticates W P hs \<longleftrightarrow>
     (case hsConn hs of None \<Rightarrow> True
      | Some (user, sshConn, key) \<Rightarrow> key \<in> set (hsOffers hs) \<and> fst (authorize W P key None))"

section \<open>The accept loop\<close>

text \<open>Of a connection, its first state, the world of its handshake and its key are ghosts.\<close>

record conn_entry =
  ceConn :: conn
  ceOpen :: bool
  ceStart :: session_state
  ceWorld :: auth_world
  ceKey :: public_key

record server =
  svConns :: "conn_entry list"
  svCounter :: u64
  svMetrics :: "collector option"

definition new_server :: "u64 \<Rightarrow> server" where
  "new_server counter = \<lparr>svConns = [], svCounter = counter, svMetrics = Some NewCollector\<rparr>"

datatype server_action = Accept auth_world handshake | Act nat action | Close nat

text \<open>
  A connection works on the shared counter. After it is closed its handlers may go on with what
  they are doing.
\<close>

fun server_exec :: "unicode \<Rightarrow> 's server_params \<Rightarrow> server_action \<Rightarrow> server \<Rightarrow> server option" where
  "server_exec U P (Accept W hs) s =
     (case HandleConnection U W P hs (svMetrics s) of
        (None, m) \<Rightarrow> Some (s\<lparr>svMetrics := m\<rparr>)
      | (Some st, m) \<Rightarrow> Some (s\<lparr>svMetrics := m, svConns := svConns s @
          [\<lparr>ceConn = start_conn st (svCounter s), ceOpen = True, ceStart = st, ceWorld = W,
            ceKey = snd (snd (the (hsConn hs)))\<rparr>]\<rparr>))"
| "server_exec U P (Act i a) s =
     (if i < length (svConns s) then
        map_option (\<lambda>c. s\<lparr>svConns := (svConns s)[i := (svConns s ! i)\<lparr>ceConn := c\<rparr>], svCounter := cnCounter c\<rparr>)
          (conn_exec U a ((ceConn (svConns s ! i))\<lparr>cnCounter := svCounter s\<rparr>))
      else None)"
| "server_exec U P (Close i) s =
     (if i < length (svConns s) \<and> ceOpen (svConns s ! i) then
        Some (s\<lparr>svConns := (svConns s)[i := (svConns s ! i)\<lparr>ceOpen := False\<rparr>],
          svMetrics := SSHConnectionClosed (svMetrics s)\<rparr>)
      else None)"

fun lawful :: "'s server_params \<Rightarrow> server_action \<Rightarrow> bool" where
  "lawful P (Accept W hs) = library_authenticates W P hs"
| "lawful P a = True"

inductive server_reach :: "unicode \<Rightarrow> 's server_params \<Rightarrow> server \<Rightarrow> server \<Rightarrow> bool" for U P s0 where
  start: "server_reach U P s0 s0"
| step: "server_reach U P s0 s \<Longrightarrow> lawful P a \<Longrightarrow> server_exec U P a s = Some s' \<Longrightarrow> server_reach U P s0 s'"

fun server_run :: "unicode \<Rightarrow> 's server_params \<Rightarrow> server_action list \<Rightarrow> server \<Rightarrow> server option" where
  "server_run U P [] s = Some s"
| "server_run U P (a # as) s =
     (if lawful P a then (case server_exec U P a s of None \<Rightarrow> None | Some s' \<Rightarrow> server_run U P as s') else None)"

section \<open>Invariants of every connection\<close>

lemma all_update: "\<forall>x \<in> set xs. Q x \<Longrightarrow> Q y \<Longrightarrow> \<forall>x \<in> set (xs[i := y]). Q x"
  by (auto dest: set_update_subset_insert [THEN subsetD])

text \<open>
  The accept loop serves each connection with the same parameters, and one connection changes
  nothing of another but the route counter. So a property of a connection that holds at its
  start, is kept by its steps and does not depend on the counter holds of every connection of a
  running server.
\<close>

locale conn_invariant =
  fixes U :: unicode
    and P :: "'s server_params"
    and I :: "session_state \<Rightarrow> conn \<Rightarrow> bool"
  assumes start: "I (serve U P user key h) (start_conn (serve U P user key h) n)"
    and step: "conn_step U c c' \<Longrightarrow> I st c \<Longrightarrow> I st c'"
    and counter: "I st c \<Longrightarrow> I st (c\<lparr>cnCounter := n\<rparr>)"
begin

definition all_conns :: "server \<Rightarrow> bool" where
  "all_conns s \<longleftrightarrow> (\<forall>e \<in> set (svConns s). I (ceStart e) (ceConn e))"

lemma accepted:
  assumes "HandleConnection U W P hs m = (Some st, m')"
  shows "I st (start_conn st n)"
  using assms start by (auto simp: HandleConnection_def split: option.splits)

lemma kept:
  assumes "server_exec U P a s = Some s'" "all_conns s"
  shows "all_conns s'"
proof (cases a)
  case (Accept W hs)
  with assms accepted [of W hs "svMetrics s"] show ?thesis
    by (auto simp: all_conns_def split: prod.splits option.splits)
next
  case (Act i b)
  with assms(1) obtain c where i: "i < length (svConns s)"
    and c: "conn_exec U b ((ceConn (svConns s ! i))\<lparr>cnCounter := svCounter s\<rparr>) = Some c"
    and s': "svConns s' = (svConns s)[i := (svConns s ! i)\<lparr>ceConn := c\<rparr>]"
    by (auto split: if_splits)
  have "I (ceStart (svConns s ! i)) c"
    using step [OF conn_exec_step [OF c]] counter assms(2) i by (simp add: all_conns_def)
  with assms(2) show ?thesis
    unfolding all_conns_def s' by (intro all_update) simp_all
next
  case (Close i)
  with assms show ?thesis
    by (auto simp: all_conns_def split: if_splits dest!: set_update_subset_insert [THEN subsetD])
qed

lemma served:
  assumes "server_reach U P (new_server n) s" "e \<in> set (svConns s)"
  shows "I (ceStart e) (ceConn e)"
proof -
  from assms(1) have "all_conns s"
    by (induction rule: server_reach.induct) (auto simp: all_conns_def new_server_def dest: kept [unfolded all_conns_def])
  with assms(2) show ?thesis by (simp add: all_conns_def)
qed

end

lemma serve_refs [simp]: "refs (serve U P user key h) = (None, None, None)"
  by (simp add: serve_def Let_def)

interpretation gates: conn_invariant U P "gates_ok U" for U and P :: "'s server_params"
  by unfold_locales (simp_all add: gates_ok_start gates_ok_step)

interpretation life: conn_invariant U P "\<lambda>st. life_ok" for U and P :: "'s server_params"
  by unfold_locales
    (auto simp: life_ok_start intro: life_ok_reach [OF conn_reach.step [OF conn_reach.start]])

text \<open>How a connection came about.\<close>

definition entry_ok :: "unicode \<Rightarrow> 's server_params \<Rightarrow> conn_entry \<Rightarrow> bool" where
  "entry_ok U P e \<longleftrightarrow> (\<exists>user key h. ceStart e = serve U P user key h) \<and> fst (authorize (ceWorld e) P (ceKey e) None)"

lemma entry_ok_ghost [simp]:
  "entry_ok U P (e\<lparr>ceConn := c\<rparr>) = entry_ok U P e" "entry_ok U P (e\<lparr>ceOpen := b\<rparr>) = entry_ok U P e"
  by (simp_all add: entry_ok_def)

lemma entry_ok_new:
  assumes "HandleConnection U W P hs m = (Some st, m')" "library_authenticates W P hs"
  shows "entry_ok U P \<lparr>ceConn = c, ceOpen = b, ceStart = st, ceWorld = W, ceKey = snd (snd (the (hsConn hs)))\<rparr>"
  using assms by (auto simp: HandleConnection_def library_authenticates_def entry_ok_def split: option.splits)

lemma entries_ok:
  assumes "server_reach U P (new_server n) s" "e \<in> set (svConns s)"
  shows "entry_ok U P e"
proof -
  from assms(1) have "\<forall>e \<in> set (svConns s). entry_ok U P e"
  proof (induction rule: server_reach.induct)
    case (step s a s')
    then show ?case
      by (cases a) (auto split: prod.splits option.splits if_splits intro: entry_ok_new intro!: all_update
          dest!: set_update_subset_insert [THEN subsetD])
  qed (simp add: new_server_def)
  with assms(2) show ?thesis by blast
qed

text \<open>Counting the open connections.\<close>

lemma filter_update_open:
  "i < length es \<Longrightarrow> length (filter ceOpen (es[i := (es ! i)\<lparr>ceConn := c\<rparr>])) = length (filter ceOpen es)"
proof (induction es arbitrary: i)
  case (Cons e es)
  then show ?case by (cases i) auto
qed simp

lemma filter_update_close:
  "i < length es \<Longrightarrow> ceOpen (es ! i)
     \<Longrightarrow> int (length (filter ceOpen (es[i := (es ! i)\<lparr>ceOpen := False\<rparr>]))) = int (length (filter ceOpen es)) - 1"
proof (induction es arbitrary: i)
  case (Cons e es)
  then show ?case by (cases i) auto
qed simp

text \<open>
  C1. From the document to the dial. Take a proxy that was started with a configuration file, at
  any moment of serving any number of connections, interleaved in any way. If a session of one of
  them dials a target, then the key that authenticated the connection passed the check for
  client keys; the document allows the session's kind; with the second factor on, an identity was
  confirmed on this very connection, the login's own if the document enforces the match; and with
  static routing on, what is dialled is the resolution of one of the document's servers for the
  login's user.
\<close>

theorem document_governs_server:
  assumes start: "start_server U w path fs = (Some (Inr P), fs')"
    and reach: "server_reach U P (new_server n) s"
    and e: "e \<in> set (svConns s)" "phase_of i (ceConn e) = Dialling sp ts u host p"
  shows "fst (authorize (ceWorld e) P (ceKey e) None)
    \<and> (\<exists>data cfg. ReadFile (mwAuth w) path = Some data
      \<and> mwDecodeInto w data (Default (mwGetenv w) (mwAuth w)) = Some cfg
      \<and> (case sp of SpawnShell \<Rightarrow> True | SpawnExec command \<Rightarrow> cAllowDirectCommands cfg)
      \<and> (ssoEnabled (cSSO cfg) \<longrightarrow> (\<exists>identity. cnIdentity (ceConn e) = Some identity
           \<and> (ssoEnforceSSHUserMatch (cSSO cfg) \<longrightarrow>
                MatchesSSHUser U identity (sso_client_user (Some (ceStart e))))))
      \<and> (srEnabled (cStaticRouting cfg) \<longrightarrow>
           (\<exists>t \<in> set (srServers (cStaticRouting cfg)).
              resolveTargetAddress U (TrimSpace t) (ClientUser (ceStart e)) = Inr (u, host, p))))"
proof -
  obtain user key h where st: "ceStart e = serve U P user key h"
    and auth: "fst (authorize (ceWorld e) P (ceKey e) None)"
    using entries_ok [OF reach e(1)] by (auto simp: entry_ok_def)
  have ok: "gates_ok U (serve U P user key h) (ceConn e)" using gates.served [OF reach e(1)] st by simp
  have "sso_client_user (Some (ceStart e)) = (if TrimSpace user \<noteq> [] then user else ''unknown'')"
    by (simp add: st sso_client_user_def ClientUserValue_def)
  with auth document_governs [OF start ok e(2)] show ?thesis by (simp only: st serve_policy)
qed

text \<open>
  C7. The connection counters tell the truth. At every moment the total is the number of
  handshakes that succeeded, the gauge of active connections is the number that are open, and it
  never goes below zero.
\<close>

theorem connections_counted:
  assumes "server_reach U P (new_server n) s"
  shows "\<exists>m. svMetrics s = Some m \<and> sshConnectionsTotal m = length (svConns s)
    \<and> sshConnectionsActive m = int (length (filter ceOpen (svConns s)))"
  using assms
proof (induction rule: server_reach.induct)
  case start
  show ?case by (simp add: new_server_def NewCollector_def)
next
  case (step s a s')
  then obtain m where m: "svMetrics s = Some m" "sshConnectionsTotal m = length (svConns s)"
    "sshConnectionsActive m = int (length (filter ceOpen (svConns s)))" by blast
  show ?case
  proof (cases a)
    case (Accept W hs)
    with step m show ?thesis
      by (auto simp: HandleConnection_def metrics_defs split: prod.splits option.splits)
  next
    case (Act i b)
    with step m show ?thesis by (auto simp: filter_update_open split: if_splits)
  next
    case (Close i)
    with step m show ?thesis by (auto simp: metrics_defs filter_update_close split: if_splits)
  qed
qed

section \<open>A concrete server\<close>

lemma server_reach_trans: "server_reach U P s1 s2 \<Longrightarrow> server_reach U P s s1 \<Longrightarrow> server_reach U P s s2"
  by (induction rule: server_reach.induct) (auto intro: server_reach.step)

lemma server_run_reach: "server_run U P as s = Some s' \<Longrightarrow> server_reach U P s s'"
proof (induction as arbitrary: s)
  case (Cons a as)
  then obtain s1 where "lawful P a" "server_exec U P a s = Some s1" "server_reach U P s1 s'"
    by (auto split: option.splits if_splits)
  then show ?case by (meson server_reach.start server_reach.step server_reach_trans)
qed (simp add: server_reach.start)

text \<open>A failed handshake, two connections, and a command of alice on the second one.\<close>

definition sample_handshake :: "string \<Rightarrow> handshake" where
  "sample_handshake user = \<lparr>hsOffers = [PlainKey ''old'', PlainKey user], hsConn = Some (user, 3, PlainKey user)\<rparr>"

definition sample_serving :: "server_action list" where
  "sample_serving = [Accept sample_world \<lparr>hsOffers = [], hsConn = None\<rparr>, Accept sample_world (sample_handshake ''bob''),
     Accept sample_world (sample_handshake ''alice''), Act 0 (OpenChannel ''session'' (Some 9)), Close 0]
     @ map (Act 1) verified_run"

definition sample_server :: server where
  "sample_server = the (server_run ascii_tables sample_params sample_serving (new_server 0))"

lemma sample_server_reach: "server_reach ascii_tables sample_params (new_server 0) sample_server"
proof -
  have "server_run ascii_tables sample_params sample_serving (new_server 0) \<noteq> None" by code_simp
  then show ?thesis by (auto simp: sample_server_def intro: server_run_reach)
qed

lemma document_governs_server_witness:
  "\<exists>identity. cnIdentity (ceConn (svConns sample_server ! 1)) = Some identity \<and> MatchesSSHUser ascii_tables identity ''alice''
     \<and> resolveTargetAddress ascii_tables (TrimSpace '' db:2200'') ''alice'' = Inr (''alice'', ''db'', ''2200'')"
proof -
  obtain fs' where start: "start_server ascii_tables sample_main ''config.json'' Map.empty = (Some (Inr sample_params), fs')"
    using sample_start by blast
  let ?e = "svConns sample_server ! 1"
  have "length (svConns sample_server) = 2" by code_simp
  then have e: "?e \<in> set (svConns sample_server)" by simp
  have dial: "phase_of 0 (ceConn ?e) = Dialling (SpawnExec ''ls'') (replicate 3 ''db:2200'') ''alice'' ''db'' ''2200''" by code_simp
  have user: "ClientUser (ceStart ?e) = ''alice''" "sso_client_user (Some (ceStart ?e)) = ''alice''" by code_simp+
  from document_governs_server [OF start sample_server_reach e dial]
  obtain cfg where "mwDecodeInto sample_main ''doc'' (Default (mwGetenv sample_main) (mwAuth sample_main)) = Some cfg"
    and doc: "ssoEnabled (cSSO cfg) \<longrightarrow> (\<exists>identity. cnIdentity (ceConn ?e) = Some identity
           \<and> (ssoEnforceSSHUserMatch (cSSO cfg) \<longrightarrow> MatchesSSHUser ascii_tables identity ''alice''))"
      "srEnabled (cStaticRouting cfg) \<longrightarrow> (\<exists>t \<in> set (srServers (cStaticRouting cfg)).
         resolveTargetAddress ascii_tables (TrimSpace t) ''alice'' = Inr (''alice'', ''db'', ''2200''))"
    unfolding user by (auto simp: sample_main_def)
  then have "cfg = sample_document (Default (mwGetenv sample_main) (mwAuth sample_main))"
    by (simp add: sample_main_def)
  with doc show ?thesis by (auto simp: sample_document_def Default_def)
qed

lemma connections_counted_witness:
  "\<exists>m. svMetrics sample_server = Some m \<and> sshConnectionsTotal m = 2 \<and> sshConnectionsActive m = 1"
proof -
  have "length (svConns sample_server) = 2" "length (filter ceOpen (svConns sample_server)) = 1" by code_simp+
  with connections_counted [OF sample_server_reach] show ?thesis by simp
qed

end
