(* ===== verification/Spec2Isabelle.thy ===== *)
theory Spec2Isabelle
  imports Connection_Refinement Proxy_Server
begin

text \<open>
  Verification of ssh-proxy-server, an SSH proxy written in Go. It accepts SSH connections with
  public keys, may ask for an SSO confirmation as a second factor, and forwards every session to
  a target server, logging in there with the client's forwarded agent and recording what goes
  through.

  The parts and how they meet. \<open>main\<close> loads a configuration, the trusted authorities and the
  host key, and serves each connection with \<open>HandleConnection\<close>. A connection has one shared
  \<open>SessionState\<close>; its channels and requests are goroutines that read and write it through
  accessors which hold a mutex. A request on a channel starts a handler, which passes the second
  factor, picks a route, dials the targets, opens a session and a recorder, and copies bytes
  until the remote command ends. The theories follow these parts:

  \<^item> \<open>Proxy_Prelude\<close>: collections of facts, 64-bit arithmetic, panics, lemmas on lists and sums.
  \<^item> \<open>Go_Strings\<close>, \<open>Go_Net\<close>, \<open>Go_Path\<close>: what the code uses of the packages \<open>strings\<close>,
    \<open>unicode\<close>, \<open>utf8\<close>, \<open>net\<close> and \<open>filepath\<close>. The Unicode tables beyond ASCII are a parameter.
  \<^item> \<open>Keywords\<close>: the contract of the normalised keywords (locale \<open>keyword_normalizer\<close>,
    interpreted for routing modes, SSO providers and recording formats).
  \<^item> \<open>Target\<close>: target addresses in \<open>internal/server/server.go\<close> (validation, parsing, formatting,
    the target in an exec command).
  \<^item> \<open>Wire\<close>: the binary parsers of request payloads, with the bounds of Go's slices.
  \<^item> \<open>Session_State\<close>: \<open>internal/types/types.go\<close>. The record has the struct's fields; a pointer
    is an option. The locales \<open>guarded_cell\<close> and \<open>guarded_field\<close> state the contract of a getter
    and a setter and are interpreted for every pair of them.
  \<^item> \<open>Metrics\<close>: \<open>internal/metrics/metrics.go\<close>, the counters and gauges.
  \<^item> \<open>Routing\<close>: candidates, round robin with its shared 64-bit counter, and the retry loop, with
    the overflow of its counts.
  \<^item> \<open>SSO\<close>: \<open>internal/sso/sso.go\<close>, the OAuth device flow with its client cache, clock and
    polling, and the match of an identity with an SSH user.
  \<^item> \<open>Recording\<close>: \<open>internal/recording/recording.go\<close>. Both recorders satisfy the locale
    \<open>session_recorder\<close>, and so does the interface value that dispatches to them.
  \<^item> \<open>File_Names\<close>, \<open>Streams\<close>: names of recordings, and the copy loops with the writers that
    record, in \<open>internal/server/server.go\<close>.
  \<^item> \<open>Security\<close>: \<open>internal/server/security.go\<close>, authorized keys and certificates.
  \<^item> \<open>Client\<close>: \<open>internal/client/client.go\<close>, host keys, the agent's signer, the dial, and the
    bidirectional proxy.
  \<^item> \<open>App_Config\<close>: \<open>internal/appconfig/config.go\<close>, defaults, validation, loading.
  \<^item> \<open>Host_Key\<close>: \<open>internal/hostkey/hostkey.go\<close>, on an explicit file system.
  \<^item> \<open>Session\<close>: one session from the handler to the deferred clean-up, as a function that
    returns the new shared state, the metrics, the list of outside effects and the panic that
    ended the process, if one did.
  \<^item> \<open>Channels\<close>: the request loops, one request at a time.
  \<^item> \<open>Connection\<close>: the state \<open>HandleConnection\<close> starts with, and the connection as a transition
    system. Every channel has a phase; one iteration of a request loop, and each access of a
    handler to the shared state, is one step; steps of different channels interleave freely. A
    step that panics has no successor.
  \<^item> \<open>Connection_Facts\<close>: invariants of all reachable states. \<open>Connection_Runs\<close>: runs, the
    number of steps of a session, and a run in which two sessions cross. \<open>Connection_Refinement\<close>:
    the handlers of \<open>Session\<close> are runs of one channel.
  \<^item> \<open>Server_Main\<close>: \<open>cmd/ssh-proxy-server/main.go\<close> up to the accept loop, and what a document
    means for the connections.
  \<^item> \<open>Proxy_Server\<close>: the accept loop, with any number of connections that share the route counter
    and the metrics, and \<open>HandleConnection\<close> from the handshake on. The locale \<open>conn_invariant\<close>
    lifts what every step of a connection keeps to every connection of a running server; it is
    interpreted for the gates and the shared references.

  What the lemmas show. Parsers: exact acceptance, no panics below 4 GiB, round trips with
  printing. State: read-over-write laws of every accessor. Routing: candidates come from the
  policy, round robin is fair below the counter's overflow, the two loops are one search for the
  first success unless there are so many attempts that the list for their failures panics. SSO: the flow returns, and success means that the
  provider issued a token after a device authorization at its own endpoints. Recording: replay
  of a recording gives the replayable form of what went through. Copying: a recorder
  is offered exactly the chunks that were delivered whole. Security and
  client: exactly which keys get in, and that host keys are checked unless switched off.
  Sessions: the gates, one bracket of opened and closed objects on every path, one count per
  session, and when a handler cannot panic. Connections: the same gates under every interleaving,
  permitted targets only, sessions that end after boundedly many steps, and recorders that stay in
  their connection. Configuration: what loads is
  usable and says what the document says. The server: from the document through the handshake
  and every interleaving of every connection to the address that is dialled, and true counts of
  connections.

  Parameters. Code that is not in the repository is an argument: the SSH library (dialling,
  agent, handshake, key parsing), HTTP and JSON decoding, the clock, the file system, random
  identifiers, RSA and PEM. Hypotheses on them are named and documented behaviour: the parser of
  \<open>authorized_keys\<close> consumes input (\<open>parser_progress\<close>), Unicode tables agree with ASCII
  (\<open>unicode_ok\<close>), printed seconds are digits (\<open>seconds_ok\<close>), a PEM key parses to its signer
  (\<open>pem_roundtrip\<close>), a handshake succeeds only with an offered key that the callback accepts
  (\<open>library_authenticates\<close>).

  Fuel. Polling runs on \<open>poll_fuel\<close>, which exceeds the number of intervals that fit between the
  start and the deadline; theory \<open>SSO\<close> shows that it never runs out. The loops
  over key files get the length of the file plus one and consume input in every round;
  the theorems of theory \<open>Security\<close> include that they return. All other
  recursion is structural.

  Not modelled: the SSH handshake and channel transport, goroutine scheduling below the
  granularity of the steps, the Prometheus exporter, printing of log lines and error texts, flag
  parsing, memory that runs out, and the end-to-end tests. In the transition system one request is
  one step even where it makes two accesses, and the events and counts of a session (theory
  \<open>Session\<close> has them) are left out. That the device flow answers is shown in theory \<open>SSO\<close>; that
  dials and the remote command come to an end is up to the outside.
\<close>

end
